theory Spec2Isabelle
  imports Main
begin

section \<open>JavaScript values of the crate explorer\<close>

text \<open>
  The entities of an RO-Crate are parsed JSON (\<^verbatim>\<open>Record<string, any>\<close>, \<^verbatim>\<open>any[]\<close>).
  A value is one of JavaScript's JSON-shaped values, together with \<^verbatim>\<open>undefined\<close>,
  which is what reading a missing property yields.

  \<^item> \<open>JObj kvs\<close> is the object whose own enumerable properties, in the order in which
    \<^verbatim>\<open>Object.entries\<close> lists them, are \<open>kvs\<close>; a property is read with \<open>map_of\<close>.
  \<^item> Numbers are the integers that a JavaScript number holds exactly (absolute value
    below \<open>2 ^ 53\<close>); for them \<^verbatim>\<open>String(n)\<close> is the decimal numeral. Fractions and
    larger numbers, which \<^verbatim>\<open>String\<close> prints with a fraction or an exponent, are outside
    the model.
  \<^item> A string is a list of characters, each read as one code unit below 256.
\<close>

datatype json =
    JUndefined
  | JNull
  | JBool bool
  | JNum int
  | JStr string
  | JArr "json list"
  | JObj "(string \<times> json) list"

text \<open>
  An exception of the source: a \<^verbatim>\<open>TypeError\<close> raised by the engine (reading a
  property of \<^verbatim>\<open>null\<close>, calling a missing method, iterating a non-iterable), or an
  \<^verbatim>\<open>Error\<close> thrown with a message. The engine's own message text is not modelled.
\<close>

datatype error = TypeError | Error string

fun message :: "error \<Rightarrow> string" where
  "message TypeError = ''TypeError''"
| "message (Error m) = m"

fun truthy :: "json \<Rightarrow> bool" where
  "truthy JUndefined = False"
| "truthy JNull = False"
| "truthy (JBool b) = b"
| "truthy (JNum n) = (n \<noteq> 0)"
| "truthy (JStr s) = (s \<noteq> [])"
| "truthy (JArr xs) = True"
| "truthy (JObj kvs) = True"

fun is_nullish :: "json \<Rightarrow> bool" where
  "is_nullish JUndefined = True"
| "is_nullish JNull = True"
| "is_nullish v = False"

text \<open>
  \<open>member v k\<close> is \<^verbatim>\<open>v[k]\<close> for a value that is neither \<^verbatim>\<open>null\<close> nor
  \<^verbatim>\<open>undefined\<close>, at the keys the source reads (\<^verbatim>\<open>"@id"\<close>, \<^verbatim>\<open>"@type"\<close>,
  \<^verbatim>\<open>"hasPart"\<close>, an expanded IRI, ...): an own property of an object, \<^verbatim>\<open>undefined\<close>
  on everything else. \<open>get_prop\<close> is the plain read, which throws on \<^verbatim>\<open>null\<close> and
  \<^verbatim>\<open>undefined\<close>; \<open>get_prop_opt\<close> is the optional chain \<^verbatim>\<open>v?.[k]\<close>.
\<close>

fun member :: "json \<Rightarrow> string \<Rightarrow> json" where
  "member (JObj kvs) k = (case map_of kvs k of Some v \<Rightarrow> v | None \<Rightarrow> JUndefined)"
| "member v k = JUndefined"

definition get_prop :: "json \<Rightarrow> string \<Rightarrow> error + json" where
  "get_prop v k = (if is_nullish v then Inl TypeError else Inr (member v k))"

definition get_prop_opt :: "json \<Rightarrow> string \<Rightarrow> json" where
  "get_prop_opt v k = (if is_nullish v then JUndefined else member v k)"

fun has_key :: "string \<Rightarrow> json \<Rightarrow> bool" where
  "has_key k (JObj kvs) = (k \<in> fst ` set kvs)"
| "has_key k v = False"

fun is_array :: "json \<Rightarrow> bool" where
  "is_array (JArr xs) = True"
| "is_array v = False"

fun typeof_object :: "json \<Rightarrow> bool" where
  "typeof_object JNull = True"
| "typeof_object (JArr xs) = True"
| "typeof_object (JObj kvs) = True"
| "typeof_object v = False"

text \<open>Strict equality \<^verbatim>\<open>===\<close> between two values read from different documents:
  primitives compare by value, objects and arrays by identity (never equal here).\<close>

fun strict_eq :: "json \<Rightarrow> json \<Rightarrow> bool" where
  "strict_eq JUndefined JUndefined = True"
| "strict_eq JNull JNull = True"
| "strict_eq (JBool a) (JBool b) = (a = b)"
| "strict_eq (JNum a) (JNum b) = (a = b)"
| "strict_eq (JStr a) (JStr b) = (a = b)"
| "strict_eq a b = False"

subsection \<open>Strings\<close>

fun join_str :: "string \<Rightarrow> string list \<Rightarrow> string" where
  "join_str sep [] = []"
| "join_str sep [x] = x"
| "join_str sep (x # y # ys) = x @ sep @ join_str sep (y # ys)"

definition digit_char :: "nat \<Rightarrow> char" where
  "digit_char d = ''0123456789'' ! d"

fun string_of_nat :: "nat \<Rightarrow> string" where
  "string_of_nat n =
     (if n < 10 then [digit_char n] else string_of_nat (n div 10) @ [digit_char (n mod 10)])"

definition string_of_int :: "int \<Rightarrow> string" where
  "string_of_int i = (if i < 0 then CHR ''-'' # string_of_nat (nat (- i)) else string_of_nat (nat i))"

text \<open>\<^verbatim>\<open>String(v)\<close>, which is also what \<^verbatim>\<open>v + " (Link)"\<close> and the argument of
  \<^verbatim>\<open>localeCompare\<close> use: an array joins its elements with a comma, \<^verbatim>\<open>null\<close> and
  \<^verbatim>\<open>undefined\<close> elements as the empty string; an object is \<^verbatim>\<open>[object Object]\<close>.\<close>

fun to_string :: "json \<Rightarrow> string" where
  "to_string JUndefined = ''undefined''"
| "to_string JNull = ''null''"
| "to_string (JBool b) = (if b then ''true'' else ''false'')"
| "to_string (JNum n) = string_of_int n"
| "to_string (JStr s) = s"
| "to_string (JArr xs) =
     join_str '','' (map (\<lambda>x. if is_nullish x then [] else to_string x) xs)"
| "to_string (JObj kvs) = ''[object Object]''"

text \<open>The characters \<^verbatim>\<open>\s\<close> matches and \<^verbatim>\<open>trim\<close> strips, among the code units below
  256: tab, line feed, vertical tab, form feed, carriage return, space, no-break space.\<close>

definition is_space :: "char \<Rightarrow> bool" where
  "is_space c = (of_char c \<in> {9, 10, 11, 12, 13, 32, 160 :: nat})"

text \<open>\<^verbatim>\<open>s.replace(/\s+/g, ' ')\<close>: every maximal run of white space becomes one space.\<close>

function collapse_spaces :: "string \<Rightarrow> string" where
  "collapse_spaces [] = []"
| "collapse_spaces (c # cs) =
     (if is_space c then CHR '' '' # collapse_spaces (dropWhile is_space cs)
      else c # collapse_spaces cs)"
  by pat_completeness auto
termination
  by (relation "measure length") (auto simp: length_dropWhile_le less_Suc_eq_le)

definition trim :: "string \<Rightarrow> string" where
  "trim s = rev (dropWhile is_space (rev (dropWhile is_space s)))"

section \<open>The search service (searchService.ts)\<close>

subsection \<open>flattenValue\<close>

text \<open>
  The recursion of \<^verbatim>\<open>flattenValue\<close> goes through the elements of an array and the
  values of an object with \<open>depth + 1\<close>, and stops once \<open>depth\<close> exceeds \<open>maxDepth\<close>.
  The termination proof below uses that bound alone (the measure is
  \<open>maxDepth + 1 - depth\<close>), not the size of the value.
\<close>

function flattenValue :: "json \<Rightarrow> nat \<Rightarrow> nat \<Rightarrow> string" where
  "flattenValue v depth maxDepth =
     (if depth > maxDepth then []
      else case v of
        JUndefined \<Rightarrow> []
      | JNull \<Rightarrow> []
      | JStr s \<Rightarrow> s
      | JNum n \<Rightarrow> string_of_int n
      | JBool b \<Rightarrow> (if b then ''true'' else ''false'')
      | JArr xs \<Rightarrow>
          join_str '' ''
            (filter (\<lambda>s. length s > 0) (map (\<lambda>item. flattenValue item (depth + 1) maxDepth) xs))
      | JObj kvs \<Rightarrow>
          join_str '' ''
            (concat (map (\<lambda>kv.
               if fst kv \<noteq> [] \<and> fst kv \<noteq> ''@context''
               then fst kv #
                 (let flattenedVal = flattenValue (snd kv) (depth + 1) maxDepth
                  in if flattenedVal \<noteq> [] then [flattenedVal] else [])
               else []) kvs)))"
  by pat_completeness auto
termination
  by (relation "measure (\<lambda>(v, depth, maxDepth). maxDepth + 1 - depth)") auto

declare flattenValue.simps [simp del]


subsection \<open>The index\<close>

record SearchIndexItem =
  entityId :: json
  crateId :: string
  searchableContent :: string

text \<open>
  The module state: \<^verbatim>\<open>indexData\<close>, and \<^verbatim>\<open>fuseInstance\<close>, which is \<^verbatim>\<open>null\<close> or a
  Fuse instance built over a collection of items (the model keeps that collection).
\<close>

record search_state =
  indexData :: "SearchIndexItem list"
  fuseInstance :: "SearchIndexItem list option"

text \<open>\<^verbatim>\<open>Object.entries\<close> of a value that is not \<^verbatim>\<open>null\<close> or \<^verbatim>\<open>undefined\<close>: the properties
  of an object, the indexed elements of an array or a string, nothing for a number or
  a boolean.\<close>

fun entries :: "json \<Rightarrow> (string \<times> json) list" where
  "entries (JObj kvs) = kvs"
| "entries (JArr xs) = map (\<lambda>i. (string_of_nat i, xs ! i)) [0..<length xs]"
| "entries (JStr s) = map (\<lambda>i. (string_of_nat i, JStr [s ! i])) [0..<length s]"
| "entries v = []"

definition extractSearchableContent :: "json \<Rightarrow> string" where
  "extractSearchableContent entity =
     trim (collapse_spaces (join_str '' ''
       (concat (map (\<lambda>kv.
          if fst kv = ''@context'' then []
          else fst kv #
            (let flattenedValue = flattenValue (snd kv) 0 10
             in if flattenedValue \<noteq> [] then [flattenedValue] else []))
        (entries entity)))))"

text \<open>What \<^verbatim>\<open>for ... of\<close> iterates: the elements of an array, the characters of a string;
  any other value is not iterable. (The parameter \<^verbatim>\<open>entities\<close> is declared
  \<^verbatim>\<open>RoCrateEntity[]\<close>; the caller passes \<^verbatim>\<open>json["@graph"]\<close>, which is any value.)\<close>

fun iterate :: "json \<Rightarrow> error + json list" where
  "iterate (JArr xs) = Inr xs"
| "iterate (JStr s) = Inr (map (\<lambda>c. JStr [c]) s)"
| "iterate v = Inl TypeError"

text \<open>
  The loop \<^verbatim>\<open>for (const entity of entities)\<close> shared by \<^verbatim>\<open>buildSearchIndex\<close> and
  \<^verbatim>\<open>addToIndex\<close>, pushing onto \<^verbatim>\<open>indexData\<close>. Reading \<^verbatim>\<open>entity['@id']\<close> of a
  \<^verbatim>\<open>null\<close> element throws; the items pushed so far stay in \<^verbatim>\<open>indexData\<close>, and the
  Fuse instance is not rebuilt.
\<close>

fun push_entities :: "json list \<Rightarrow> string \<Rightarrow> SearchIndexItem list \<Rightarrow>
    (error \<times> SearchIndexItem list) + SearchIndexItem list" where
  "push_entities [] cid acc = Inr acc"
| "push_entities (entity # rest) cid acc =
     (if is_nullish entity then Inl (TypeError, acc)
      else let eid = member entity ''@id'' in
        if \<not> truthy eid then push_entities rest cid acc
        else let content = extractSearchableContent entity in
          if content \<noteq> []
          then push_entities rest cid
                 (acc @ [\<lparr>entityId = eid, crateId = cid, searchableContent = content\<rparr>])
          else push_entities rest cid acc)"

text \<open>An exception leaves the module state as it was when it was thrown:
  \<open>Inl (e, s)\<close> is "threw \<open>e\<close> in state \<open>s\<close>".\<close>

definition buildSearchIndex :: "json \<Rightarrow> string \<Rightarrow> search_state \<Rightarrow>
    (error \<times> search_state) + search_state" where
  "buildSearchIndex entities cid st =
     (case iterate entities of
        Inl e \<Rightarrow> Inl (e, st\<lparr>indexData := []\<rparr>)
      | Inr es \<Rightarrow>
          (case push_entities es cid [] of
             Inl (e, items) \<Rightarrow> Inl (e, st\<lparr>indexData := items\<rparr>)
           | Inr items \<Rightarrow> Inr (st\<lparr>indexData := items, fuseInstance := Some items\<rparr>)))"

definition addToIndex :: "json \<Rightarrow> string \<Rightarrow> search_state \<Rightarrow>
    (error \<times> search_state) + search_state" where
  "addToIndex entities cid st =
     (if fuseInstance st = None then buildSearchIndex entities cid st
      else
        case iterate entities of
          Inl e \<Rightarrow> Inl (e, st\<lparr>indexData := filter (\<lambda>item. crateId item \<noteq> cid) (indexData st)\<rparr>)
        | Inr es \<Rightarrow>
            (case push_entities es cid (filter (\<lambda>item. crateId item \<noteq> cid) (indexData st)) of
               Inl (e, items) \<Rightarrow> Inl (e, st\<lparr>indexData := items\<rparr>)
             | Inr items \<Rightarrow> Inr (st\<lparr>indexData := items, fuseInstance := Some items\<rparr>)))"

definition clearSearchIndex :: "search_state \<Rightarrow> search_state" where
  "clearSearchIndex st = st\<lparr>fuseInstance := None, indexData := []\<rparr>"

section \<open>The crate loader (crateLoader.ts)\<close>

definition is_root_id :: "json \<Rightarrow> bool" where
  "is_root_id v = (v = JStr ''./'' \<or> v = JStr ''.'')"

definition validateRoCrateJson :: "json \<Rightarrow> error + unit" where
  "validateRoCrateJson d =
     (if \<not> truthy d \<or> \<not> typeof_object d
      then Inl (Error ''Invalid RO-Crate: data is not an object'')
      else if \<not> has_key ''@context'' d
      then Inl (Error ''Invalid RO-Crate: missing @context'')
      else if \<not> has_key ''@graph'' d
      then Inl (Error ''Invalid RO-Crate: missing @graph'')
      else case member d ''@graph'' of
        JArr graph \<Rightarrow>
          if graph = [] then Inl (Error ''Invalid RO-Crate: @graph is empty'')
          else if \<not> list_ex (\<lambda>entity. is_root_id (get_prop_opt entity ''@id'')) graph
          then Inl (Error (''Invalid RO-Crate: missing root dataset entity with @id '' @
                 [CHR 0x22] @ ''./'' @ [CHR 0x22] @ '' or '' @ [CHR 0x22] @ ''.'' @ [CHR 0x22]))
          else Inr ()
      | _ \<Rightarrow> Inl (Error ''Invalid RO-Crate: @graph is not an array''))"

text \<open>
  The browser's \<^verbatim>\<open>fetch\<close>: it rejects (a network error), or resolves to a response with
  \<^verbatim>\<open>ok\<close>, \<^verbatim>\<open>status\<close>, \<^verbatim>\<open>statusText\<close>, and a body that \<^verbatim>\<open>response.json()\<close> parses or
  rejects.
\<close>

record response =
  ok :: bool
  status :: nat
  statusText :: string
  body_json :: "error + json"

type_synonym fetch_fn = "string \<Rightarrow> error + response"

definition fetchCrateFromUrl :: "string \<Rightarrow> fetch_fn \<Rightarrow> string \<Rightarrow> error + json" where
  "fetchCrateFromUrl configCorsProxyUrl fetch url =
     (let corsProxyUrl =
            (if configCorsProxyUrl \<noteq> [] \<and> last configCorsProxyUrl = CHR ''/''
             then configCorsProxyUrl else configCorsProxyUrl @ ''/'');
          proxiedUrl = corsProxyUrl @ url;
          attempt =
            (case fetch proxiedUrl of
               Inl e \<Rightarrow> Inl e
             | Inr r \<Rightarrow>
                 (if \<not> ok r
                  then Inl (Error (''Failed to fetch crate: '' @ string_of_nat (status r) @ '' '' @ statusText r))
                  else (case body_json r of
                     Inl parseError \<Rightarrow> Inl (Error (''Failed to parse JSON: '' @ message parseError))
                   | Inr d \<Rightarrow>
                       (case validateRoCrateJson d of Inl e \<Rightarrow> Inl e | Inr u \<Rightarrow> Inr d))))
      in case attempt of
           Inl e \<Rightarrow> Inl (Error (''Error fetching RO-Crate from URL: '' @ message e))
         | Inr d \<Rightarrow> Inr d)"

section \<open>The file tree (App.vue, the computed property fileTree)\<close>

datatype TreeNode =
  TreeNode (node_name: json) (node_id: string) (node_type: json)
    (children: "TreeNode list") (node_data: json)

text \<open>\<^verbatim>\<open>new Map<string, any>()\<close>, read with string keys only. A key that is not a string
  (an entity without a string \<^verbatim>\<open>"@id"\<close>) is never looked up, so \<open>Map_set\<close> leaves
  it out; a later \<^verbatim>\<open>set\<close> of the same key wins.\<close>

type_synonym entityMap = "(string \<times> json) list"

definition Map_get :: "entityMap \<Rightarrow> string \<Rightarrow> json" where
  "Map_get m k = (case map_of m k of Some v \<Rightarrow> v | None \<Rightarrow> JUndefined)"

definition Map_set :: "entityMap \<Rightarrow> json \<Rightarrow> json \<Rightarrow> entityMap" where
  "Map_set m key v = (case key of JStr k \<Rightarrow> (k, v) # m | _ \<Rightarrow> m)"

text \<open>\<^verbatim>\<open>allEntities.value.forEach((entity) => entityMap.set(entity["@id"], entity))\<close>\<close>

fun fill_entityMap :: "json list \<Rightarrow> entityMap \<Rightarrow> error + entityMap" where
  "fill_entityMap [] m = Inr m"
| "fill_entityMap (entity # rest) m =
     (if is_nullish entity then Inl TypeError
      else fill_entityMap rest (Map_set m (member entity ''@id'') entity))"

text \<open>\<^verbatim>\<open>id.split("/")\<close>\<close>

fun split_slash :: "string \<Rightarrow> string list" where
  "split_slash [] = [[]]"
| "split_slash (c # cs) =
     (if c = CHR ''/'' then [] # split_slash cs
      else (case split_slash cs of
             [] \<Rightarrow> [[c]]
           | p # ps \<Rightarrow> (c # p) # ps))"

definition getNodeName :: "json \<Rightarrow> string \<Rightarrow> json" where
  "getNodeName entity ident =
     (if truthy entity \<and> truthy (member entity ''name'') then member entity ''name''
      else let parts = filter (\<lambda>p. p \<noteq> [] \<and> p \<noteq> ''.'') (split_slash ident)
           in if parts \<noteq> [] then JStr (last parts) else JStr ident)"

text \<open>
  The comparator of \<^verbatim>\<open>children.sort\<close>. \<open>localeCompare\<close> is the host's collation, a
  parameter. \<^verbatim>\<open>a.name.localeCompare\<close> exists only when \<^verbatim>\<open>a.name\<close> is a string (a truthy
  \<^verbatim>\<open>name\<close> of another type makes the call throw); its argument is converted to a string.
\<close>

type_synonym collation = "string \<Rightarrow> string \<Rightarrow> int"

definition compare_children :: "collation \<Rightarrow> TreeNode \<Rightarrow> TreeNode \<Rightarrow> error + int" where
  "compare_children localeCompare a b =
     (let aIsFolder = (node_type a = JStr ''Dataset'');
          bIsFolder = (node_type b = JStr ''Dataset'')
      in if aIsFolder \<and> \<not> bIsFolder then Inr (- 1)
         else if \<not> aIsFolder \<and> bIsFolder then Inr 1
         else case node_name a of
                JStr s \<Rightarrow> Inr (localeCompare s (to_string (node_name b)))
              | _ \<Rightarrow> Inl TypeError)"

text \<open>
  \<^verbatim>\<open>Array.prototype.sort\<close> is the engine's. ECMAScript leaves to the implementation which
  pairs of elements the comparator is called on, in which order, and which element of a
  pair comes first; the engines differ in it. The method is therefore a parameter: given
  the comparator and the elements of the array it returns the sorted elements, or the
  exception of the comparator call that threw. An array of fewer than two elements has no
  pair to compare and is left as it is.
\<close>

type_synonym sort_fn =
  "(TreeNode \<Rightarrow> TreeNode \<Rightarrow> error + int) \<Rightarrow> TreeNode list \<Rightarrow> error + TreeNode list"

definition sort_children :: "sort_fn \<Rightarrow> collation \<Rightarrow> TreeNode list \<Rightarrow> error + TreeNode list" where
  "sort_children arraySort lc xs =
     (if length xs < 2 then Inr xs else arraySort (compare_children lc) xs)"

definition typeStr :: "json \<Rightarrow> json" where
  "typeStr entity =
     (if truthy entity \<and> truthy (member entity ''@type'')
      then (case member entity ''@type'' of
              JArr ts \<Rightarrow> (case ts of [] \<Rightarrow> JUndefined | t # _ \<Rightarrow> t)
            | t \<Rightarrow> t)
      else if \<not> truthy entity then JStr ''Broken Link''
      else JStr ''File'')"

text \<open>
  \<open>buildTree\<close>, with the loop \<^verbatim>\<open>parts.forEach\<close> as \<open>forEach_part\<close> (the last argument
  is the array \<^verbatim>\<open>children\<close> built so far). Reading \<^verbatim>\<open>part["@id"]\<close> of a \<^verbatim>\<open>null\<close> part
  throws. \<open>visited\<close> is the \<^verbatim>\<open>Set<string>\<close> of the current path.
\<close>

function buildTree :: "sort_fn \<Rightarrow> collation \<Rightarrow> entityMap \<Rightarrow> string \<Rightarrow> string set \<Rightarrow>
    error + TreeNode"
  and forEach_part :: "sort_fn \<Rightarrow> collation \<Rightarrow> entityMap \<Rightarrow> string set \<Rightarrow> json list \<Rightarrow>
    TreeNode list \<Rightarrow> error + TreeNode list"
where
  "buildTree arraySort lc entityMap entityId' visited =
     (let entity = Map_get entityMap entityId' in
      if entityId' \<in> visited
      then Inr (TreeNode (JStr (to_string (getNodeName entity entityId') @ '' (Link)''))
                  entityId' (JStr ''Link'') [] entity)
      else
        let currentVisited = insert entityId' visited in
        case (if truthy entity \<and> truthy (member entity ''hasPart'')
              then forEach_part arraySort lc entityMap currentVisited
                     (case member entity ''hasPart'' of JArr ps \<Rightarrow> ps | p \<Rightarrow> [p]) []
              else Inr []) of
          Inl e \<Rightarrow> Inl e
        | Inr pushed \<Rightarrow>
            (case sort_children arraySort lc pushed of
               Inl e \<Rightarrow> Inl e
             | Inr ordered \<Rightarrow>
                 Inr (TreeNode (getNodeName entity entityId') entityId' (typeStr entity) ordered
                        (if truthy entity then entity else JNull))))"
| "forEach_part arraySort lc entityMap currentVisited [] pushed = Inr pushed"
| "forEach_part arraySort lc entityMap currentVisited (part # rest) pushed =
     (if is_nullish part then Inl TypeError
      else
        case (if truthy (member part ''@id'') then member part ''@id'' else part) of
          JStr partId \<Rightarrow>
            (case buildTree arraySort lc entityMap partId currentVisited of
               Inl e \<Rightarrow> Inl e
             | Inr child \<Rightarrow> forEach_part arraySort lc entityMap currentVisited rest (pushed @ [child]))
        | _ \<Rightarrow> forEach_part arraySort lc entityMap currentVisited rest pushed)"
  by pat_completeness auto
termination
  apply (relation "inv_image (less_than <*lex*> less_than)
    (\<lambda>x. case x of
       Inl (arraySort, lc, m, ident, visited) \<Rightarrow> (card (fst ` set m - visited), 0::nat)
     | Inr (arraySort, lc, m, visited, parts, pushed) \<Rightarrow> (card (fst ` set m - visited), Suc (length parts)))")
  subgoal by (intro wf_inv_image wf_lex_prod wf_less_than)
  subgoal for arraySort lc entityMap entityId' visited entity currentVisited
  proof -
    assume a: "entity = Map_get entityMap entityId'" "entityId' \<notin> visited"
      "currentVisited = insert entityId' visited"
      "truthy entity \<and> truthy (member entity ''hasPart'')"
    from a have "map_of entityMap entityId' \<noteq> None"
      by (auto simp: Map_get_def split: option.splits)
    then have "entityId' \<in> fst ` set entityMap"
      by (simp add: map_of_eq_None_iff)
    with a have "card (fst ` set entityMap - insert entityId' visited)
        < card (fst ` set entityMap - visited)"
      by (intro psubset_card_mono) auto
    with a show ?thesis by simp
  qed
  apply simp_all
  done

declare buildTree.simps [simp del]

text \<open>\<^verbatim>\<open>allEntities.value.find((e) => e["@id"] === "./" || e["@id"] === ".")\<close>\<close>

fun find_root :: "json list \<Rightarrow> error + json" where
  "find_root [] = Inr JUndefined"
| "find_root (e # es) =
     (if is_nullish e then Inl TypeError
      else if is_root_id (member e ''@id'') then Inr e
      else find_root es)"

text \<open>The array methods (\<^verbatim>\<open>find\<close>, \<^verbatim>\<open>forEach\<close>, \<^verbatim>\<open>some\<close>) exist on arrays only.\<close>

fun as_array :: "json \<Rightarrow> error + json list" where
  "as_array (JArr xs) = Inr xs"
| "as_array v = Inl TypeError"

text \<open>The \<^verbatim>\<open>ROCrate\<close> instance of the ro-crate library: the source reads its
  \<^verbatim>\<open>rootDataset\<close> only.\<close>

record rocrate =
  rootDataset :: json

text \<open>
  \<^verbatim>\<open>fileTree\<close> depends on \<^verbatim>\<open>crate\<close>, \<^verbatim>\<open>allEntities\<close> and \<^verbatim>\<open>currentCrateName\<close>.
  \<^verbatim>\<open>buildTree\<close> takes a string: a root entity whose \<^verbatim>\<open>"@id"\<close> is not a string (only the
  library's \<^verbatim>\<open>rootDataset\<close> could be one) is outside the model and reported as an error.
\<close>

definition crate_rootDataset :: "rocrate option \<Rightarrow> json" where
  "crate_rootDataset crate = (case crate of Some c \<Rightarrow> rootDataset c | None \<Rightarrow> JUndefined)"

definition fileTree :: "sort_fn \<Rightarrow> collation \<Rightarrow> rocrate option \<Rightarrow> json \<Rightarrow> json \<Rightarrow>
    error + TreeNode" where
  "fileTree arraySort lc crate allEntities currentCrateName =
     (case (if truthy (crate_rootDataset crate) then Inr (crate_rootDataset crate)
            else (case as_array allEntities of Inl e \<Rightarrow> Inl e | Inr es \<Rightarrow> find_root es)) of
        Inl e \<Rightarrow> Inl e
      | Inr rootEntity \<Rightarrow>
          if \<not> truthy rootEntity
          then Inr (TreeNode currentCrateName ''./'' (JStr ''Dataset'') [] JNull)
          else (case as_array allEntities of
            Inl e \<Rightarrow> Inl e
          | Inr es \<Rightarrow>
              (case fill_entityMap es [] of
                 Inl e \<Rightarrow> Inl e
               | Inr entityMap \<Rightarrow>
                   (case member rootEntity ''@id'' of
                      JStr rootId \<Rightarrow> buildTree arraySort lc entityMap rootId {}
                    | _ \<Rightarrow> Inl (Error ''root @id is not a string'')))))"

section \<open>Linked-data hints (App.vue, buildLinkedDataHints)\<close>

text \<open>
  \<^verbatim>\<open>jsonld.expand\<close> is a collaborator: a function from a document to the array of
  its expanded nodes, or an error (the promise rejects). The \<^verbatim>\<open>await\<close>s are run in
  program order; \<^verbatim>\<open>Promise.all\<close> over the properties of one entity becomes a loop.
\<close>

type_synonym expand_fn = "json \<Rightarrow> error + json list"

record hint =
  propIri :: "string option"
  valueIris :: "string list"

text \<open>A plain object used as a table (\<^verbatim>\<open>hints\<close>, the result of \<^verbatim>\<open>Object.fromEntries\<close>):
  an assignment replaces the value of an existing key or adds the key. A table is read
  with \<open>map_of\<close>; the order of its keys has no meaning.\<close>

fun obj_set :: "(string \<times> 'a) list \<Rightarrow> string \<Rightarrow> 'a \<Rightarrow> (string \<times> 'a) list" where
  "obj_set [] k v = [(k, v)]"
| "obj_set ((k', v') # m) k v = (if k' = k then (k, v) # m else (k', v') # obj_set m k v)"

definition fromEntries :: "(string \<times> 'a) list \<Rightarrow> (string \<times> 'a) list" where
  "fromEntries es = foldl (\<lambda>m kv. obj_set m (fst kv) (snd kv)) [] es"

type_synonym hints = "(string \<times> (string \<times> hint) list) list"

text \<open>\<^verbatim>\<open>propertyCache\<close>: a \<^verbatim>\<open>Map<string, string | undefined>\<close>.\<close>

type_synonym propertyCache = "(string \<times> string option) list"

text \<open>The object literal \<^verbatim>\<open>{ "@context": context, [propName]: "x" }\<close>.\<close>

definition probe :: "json \<Rightarrow> string \<Rightarrow> json" where
  "probe context propName = JObj (obj_set [(''@context'', context)] propName (JStr ''x''))"

text \<open>\<^verbatim>\<open>expandProperty\<close>: the \<^verbatim>\<open>try\<close> block catches a failed expansion and caches
  \<^verbatim>\<open>undefined\<close>.\<close>

definition expandProperty :: "expand_fn \<Rightarrow> json \<Rightarrow> propertyCache \<Rightarrow> string \<Rightarrow>
    string option \<times> propertyCache" where
  "expandProperty expand context cache propName =
     (case map_of cache propName of
        Some iri \<Rightarrow> (iri, cache)
      | None \<Rightarrow>
          (case expand (probe context propName) of
             Inl e \<Rightarrow> (None, (propName, None) # cache)
           | Inr expanded \<Rightarrow>
               (let node = (case expanded of
                              [] \<Rightarrow> JObj []
                            | n # _ \<Rightarrow> if truthy n then n else JObj []);
                    iri = find (\<lambda>k. \<not> (k \<noteq> [] \<and> hd k = CHR ''@'')) (map fst (entries node))
                in (iri, (propName, iri) # cache))))"

text \<open>The value IRIs of a property: \<^verbatim>\<open>propIri && Array.isArray(expandedNode[propIri])\<close>,
  then the \<^verbatim>\<open>"@id"\<close> of every expanded value that is an object, kept when it is a string.\<close>

fun string_values :: "json list \<Rightarrow> string list" where
  "string_values [] = []"
| "string_values (v # vs) =
     (case (if truthy v \<and> typeof_object v then member v ''@id'' else JNull) of
        JStr s \<Rightarrow> s # string_values vs
      | _ \<Rightarrow> string_values vs)"

definition values_of :: "json \<Rightarrow> string option \<Rightarrow> string list" where
  "values_of expandedNode iri =
     (case iri of
        None \<Rightarrow> []
      | Some i \<Rightarrow>
          if i = [] then []
          else (case member expandedNode i of JArr vs \<Rightarrow> string_values vs | _ \<Rightarrow> []))"

text \<open>The entries of one entity: \<^verbatim>\<open>props.map(async (propName) => ...)\<close>.\<close>

fun prop_entries :: "expand_fn \<Rightarrow> json \<Rightarrow> json \<Rightarrow> string list \<Rightarrow> propertyCache \<Rightarrow>
    (string \<times> hint) list \<times> propertyCache" where
  "prop_entries expand context expandedNode [] cache = ([], cache)"
| "prop_entries expand context expandedNode (propName # rest) cache =
     (let (iri, cache1) = expandProperty expand context cache propName;
          (es, cache2) = prop_entries expand context expandedNode rest cache1
      in ((propName, \<lparr>propIri = iri, valueIris = values_of expandedNode iri\<rparr>) # es, cache2))"

text \<open>\<^verbatim>\<open>expandedNodes.find((n) => n["@id"] === entity["@id"])\<close>, for an entity that is
  not \<^verbatim>\<open>null\<close>.\<close>

fun find_expanded :: "json list \<Rightarrow> json \<Rightarrow> error + json" where
  "find_expanded [] entity = Inr JUndefined"
| "find_expanded (n # ns) entity =
     (if is_nullish n then Inl TypeError
      else if strict_eq (member n ''@id'') (member entity ''@id'') then Inr n
      else find_expanded ns entity)"

definition props_of :: "json \<Rightarrow> string list" where
  "props_of entity = filter (\<lambda>k. k \<noteq> ''@id'' \<and> k \<noteq> ''@type'') (map fst (entries entity))"

text \<open>The loop \<^verbatim>\<open>for (const entity of json["@graph"] || [])\<close>.\<close>

fun hints_loop :: "expand_fn \<Rightarrow> json \<Rightarrow> json list \<Rightarrow> json list \<Rightarrow> propertyCache \<Rightarrow> hints \<Rightarrow>
    error + hints" where
  "hints_loop expand context expandedNodes [] cache hints = Inr hints"
| "hints_loop expand context expandedNodes (entity # rest) cache hints =
     (if is_nullish entity then Inl TypeError
      else case find_expanded expandedNodes entity of
        Inl e \<Rightarrow> Inl e
      | Inr found \<Rightarrow>
          (let expandedNode = (if truthy found then found else JObj []);
               (es, cache1) = prop_entries expand context expandedNode (props_of entity) cache
           in hints_loop expand context expandedNodes rest cache1
                (obj_set hints (to_string (member entity ''@id'')) (fromEntries es))))"

definition buildLinkedDataHints :: "expand_fn \<Rightarrow> json \<Rightarrow> json list \<Rightarrow> error + hints" where
  "buildLinkedDataHints expand json expandedNodes =
     (if is_nullish json then Inl TypeError
      else let context = member json ''@context'' in
        if \<not> truthy context then Inr []
        else (case iterate (if truthy (member json ''@graph'') then member json ''@graph''
                            else JArr []) of
                Inl e \<Rightarrow> Inl e
              | Inr entities \<Rightarrow> hints_loop expand context expandedNodes entities [] []))"

section \<open>Loading and navigating crates (App.vue)\<close>

subsection \<open>State and collaborators\<close>

text \<open>The entry \<^verbatim>\<open>{ name, url }\<close> of the breadcrumb stack (\<^verbatim>\<open>HistoryItem\<close>) and the entry of
  the crate cache (\<^verbatim>\<open>CachedCrate\<close>); the fields carry a prefix.\<close>

record HistoryItem =
  h_name :: json
  h_url :: "string option"

record CachedCrate =
  c_json :: json
  c_entities :: json
  c_expandedCrate :: "json list"
  c_linkedDataHints :: hints
  c_crateName :: json

text \<open>
  The refs of the component that loading and navigation read or write, and the module
  state of the search service. \<^verbatim>\<open>fullCrateJson\<close> holds the JSON text of a document and
  \<^verbatim>\<open>selectedEntityData\<close> the display data of an entity; the model keeps the document and
  the entity they are computed from. A \<^verbatim>\<open>string | null\<close> ref is a \<open>string option\<close>.
\<close>

record app =
  inputUrl :: string
  currentUrl :: "string option"
  crate :: "rocrate option"
  currentCrateName :: json
  historyStack :: "HistoryItem list"
  allEntities :: json
  expandedCrate :: "json list"
  linkedDataHints :: hints
  selectedEntityId :: string
  selectedEntityData :: "json option"
  crateCache :: "(string \<times> CachedCrate) list"
  rootCrateUrl :: "string option"
  fullCrateJson :: "json option"
  isLoading :: bool
  baseUrl :: string
  errorMsg :: "string option"
  search :: search_state

text \<open>The browser's \<^verbatim>\<open>URL\<close> objects, as far as the source reads them.\<close>

record URL =
  href :: string
  pathname :: string

text \<open>The answer of the indexing service to \<^verbatim>\<open>POST /crates/url\<close>, by the branch of
  \<^verbatim>\<open>loadFromUrl\<close> it leads to: the request fails or is refused (also a 409 whose message
  names no crate), the crate is already indexed under an id, or it is indexed now and the
  summary names the id of its primary crate.\<close>

datatype index_reply = IndexFailed error | AlreadyIndexed string | Indexed string

text \<open>
  The configuration and the collaborators: the build mode, the CORS proxy, \<^verbatim>\<open>fetch\<close>,
  \<^verbatim>\<open>jsonld.expand\<close>, the constructor of the ro-crate library, \<^verbatim>\<open>new URL(input, base)\<close>
  (\<open>None\<close> when it throws) and the setter of \<^verbatim>\<open>pathname\<close>, \<^verbatim>\<open>JSON.parse\<close>, and the two
  requests to the indexing service (\<open>indexing_metadata\<close> is the \<^verbatim>\<open>GET /crates/<id>\<close> of
  \<^verbatim>\<open>fetchMetadata\<close>, from the crate id to the parsed body). Every \<^verbatim>\<open>await\<close> is run to
  completion before the next statement.
\<close>

record env =
  isStateless :: bool
  corsProxyUrl :: string
  fetch_url :: fetch_fn
  jsonld_expand :: expand_fn
  new_ROCrate :: "json \<Rightarrow> error + rocrate"
  new_URL :: "string \<Rightarrow> string option \<Rightarrow> URL option"
  set_pathname :: "URL \<Rightarrow> string \<Rightarrow> URL"
  JSON_parse :: "string \<Rightarrow> error + json"
  indexing_url :: "string \<Rightarrow> index_reply"
  indexing_metadata :: "string \<Rightarrow> error + json"

subsection \<open>Helpers\<close>

definition truthy_str :: "string option \<Rightarrow> bool" where
  "truthy_str u = (case u of None \<Rightarrow> False | Some s \<Rightarrow> s \<noteq> [])"

definition ends_with_slash :: "string \<Rightarrow> bool" where
  "ends_with_slash s = (s \<noteq> [] \<and> last s = CHR ''/'')"

text \<open>\<^verbatim>\<open>s.endsWith("/") ? s : s + "/"\<close>\<close>

definition ensure_slash :: "string \<Rightarrow> string" where
  "ensure_slash s = (if ends_with_slash s then s else s @ ''/'')"

fun starts_with :: "string \<Rightarrow> string \<Rightarrow> bool" where
  "starts_with s [] = True"
| "starts_with [] (c # cs) = False"
| "starts_with (x # xs) (c # cs) = (x = c \<and> starts_with xs cs)"

fun str_includes :: "string \<Rightarrow> string \<Rightarrow> bool" where
  "str_includes [] sub = (sub = [])"
| "str_includes (x # xs) sub = (starts_with (x # xs) sub \<or> str_includes xs sub)"

definition ends_with :: "string \<Rightarrow> string \<Rightarrow> bool" where
  "ends_with s suffix =
     (length suffix \<le> length s \<and> drop (length s - length suffix) s = suffix)"

text \<open>Lower case, for the letters A to Z (no other code unit below 256 folds to one of
  them, neither under \<^verbatim>\<open>toLowerCase\<close> nor under the flag \<^verbatim>\<open>i\<close> of a regular expression).\<close>

definition to_lower :: "char \<Rightarrow> char" where
  "to_lower c =
     (case map_of (zip ''ABCDEFGHIJKLMNOPQRSTUVWXYZ'' ''abcdefghijklmnopqrstuvwxyz'') c of
        Some l \<Rightarrow> l
      | None \<Rightarrow> c)"

text \<open>\<^verbatim>\<open>{ ...obj, [k]: v }\<close>\<close>

definition spread_set :: "json \<Rightarrow> string \<Rightarrow> json \<Rightarrow> json" where
  "spread_set obj k v = JObj (obj_set (entries obj) k v)"

subsection \<open>normalizeDescriptorName\<close>

text \<open>The callback of \<^verbatim>\<open>graph.findIndex\<close>: is the entity the metadata descriptor?\<close>

definition is_descriptor :: "json \<Rightarrow> error + bool" where
  "is_descriptor entity =
     (if is_nullish entity then Inl TypeError
      else if member entity ''@type'' \<noteq> JStr ''CreativeWork'' then Inr False
      else
        let conformsTo = member entity ''conformsTo'';
            conformsToId = (if truthy (get_prop_opt conformsTo ''@id'')
                            then get_prop_opt conformsTo ''@id'' else conformsTo)
        in if \<not> truthy conformsToId \<or> \<not> str_includes (to_string conformsToId) ''ro/crate''
           then Inr False
           else
             let about = member entity ''about'';
                 aboutId = (if truthy (get_prop_opt about ''@id'')
                            then get_prop_opt about ''@id'' else about)
             in Inr (is_root_id aboutId))"

fun findIndex_descriptor :: "json list \<Rightarrow> nat \<Rightarrow> error + nat option" where
  "findIndex_descriptor [] i = Inr None"
| "findIndex_descriptor (entity # rest) i =
     (case is_descriptor entity of
        Inl e \<Rightarrow> Inl e
      | Inr found \<Rightarrow> if found then Inr (Some i) else findIndex_descriptor rest (Suc i))"

definition normalizeDescriptorName :: "json \<Rightarrow> error + json" where
  "normalizeDescriptorName json =
     (if \<not> truthy json \<or> \<not> truthy (member json ''@graph'') then Inr json
      else case member json ''@graph'' of
        JArr graph \<Rightarrow>
          (case findIndex_descriptor graph 0 of
             Inl e \<Rightarrow> Inl e
           | Inr None \<Rightarrow> Inr json
           | Inr (Some descriptorIndex) \<Rightarrow>
               (let descriptor = graph ! descriptorIndex in
                if member descriptor ''@id'' = JStr ''ro-crate-metadata.json'' then Inr json
                else Inr (spread_set json ''@graph''
                       (JArr (graph[descriptorIndex :=
                          spread_set descriptor ''@id'' (JStr ''ro-crate-metadata.json'')])))))
      | _ \<Rightarrow> Inl TypeError)"

subsection \<open>processCrateData\<close>

definition getSafeName :: "json \<Rightarrow> string \<Rightarrow> json" where
  "getSafeName entity fallback =
     (if \<not> truthy entity then JStr fallback
      else
        let name0 = member entity ''name'';
            name1 = (case name0 of JArr (x # xs) \<Rightarrow> x | _ \<Rightarrow> name0)
        in case name1 of
             JStr s \<Rightarrow>
               (if s \<noteq> [] then JStr s
                else if truthy (member entity ''@id'') then member entity ''@id''
                else JStr fallback)
           | _ \<Rightarrow>
               (if truthy (member entity ''@id'') then member entity ''@id''
                else JStr fallback))"

text \<open>\<^verbatim>\<open>allEntities.value.find((e) => e["@id"] === selectedEntityId.value)\<close>\<close>

fun find_by_id :: "json list \<Rightarrow> string \<Rightarrow> error + json" where
  "find_by_id [] i = Inr JUndefined"
| "find_by_id (e # es) i =
     (if is_nullish e then Inl TypeError
      else if member e ''@id'' = JStr i then Inr e
      else find_by_id es i)"

text \<open>In the functions below, \<open>Inl (e, s)\<close> is "threw \<open>e\<close>, leaving the state \<open>s\<close>".\<close>

definition updateSelectedEntityView :: "app \<Rightarrow> (error \<times> app) + app" where
  "updateSelectedEntityView s =
     (case as_array (allEntities s) of
        Inl e \<Rightarrow> Inl (e, s)
      | Inr es \<Rightarrow>
          (case find_by_id es (selectedEntityId s) of
             Inl e \<Rightarrow> Inl (e, s)
           | Inr entity0 \<Rightarrow>
               (case (if \<not> truthy entity0 \<and>
                         (selectedEntityId s = ''./'' \<or> selectedEntityId s = ''.'')
                      then (if truthy (crate_rootDataset (crate s))
                            then Inr (crate_rootDataset (crate s))
                            else find_root es)
                      else Inr entity0) of
                  Inl e \<Rightarrow> Inl (e, s)
                | Inr entity \<Rightarrow>
                    Inr (s\<lparr>selectedEntityData := (if truthy entity then Some entity else None)\<rparr>))))"

definition updateBreadcrumbsForCrate :: "string option \<Rightarrow> app \<Rightarrow> app" where
  "updateBreadcrumbsForCrate crateUrl s =
     (if \<not> truthy_str crateUrl \<or> \<not> truthy_str (rootCrateUrl s) then s\<lparr>historyStack := []\<rparr>
      else if crateUrl = rootCrateUrl s then s\<lparr>historyStack := []\<rparr>
      else s)"

text \<open>\<^verbatim>\<open>isFirstCrate ? buildSearchIndex(allEntities.value, crateId) : addToIndex(...)\<close>,
  with \<^verbatim>\<open>crateId = sourceUrl || 'primary'\<close>.\<close>

definition update_search_index :: "bool \<Rightarrow> string option \<Rightarrow> app \<Rightarrow> (error \<times> app) + app" where
  "update_search_index isFirstCrate sourceUrl s =
     (let cid = (case sourceUrl of None \<Rightarrow> ''primary'' | Some u \<Rightarrow> if u = [] then ''primary'' else u)
      in case (if isFirstCrate then buildSearchIndex (allEntities s) cid (search s)
               else addToIndex (allEntities s) cid (search s)) of
           Inl (e, st) \<Rightarrow> Inl (e, s\<lparr>search := st\<rparr>)
         | Inr st \<Rightarrow> Inr (s\<lparr>search := st\<rparr>))"

text \<open>The branch of \<^verbatim>\<open>processCrateData\<close> that restores a cached crate, up to the call of
  \<^verbatim>\<open>updateBreadcrumbsForCrate\<close>.\<close>

definition process_cached :: "env \<Rightarrow> CachedCrate \<Rightarrow> string option \<Rightarrow> bool \<Rightarrow> app \<Rightarrow>
    (error \<times> app) + app" where
  "process_cached E cachedData sourceUrl isFirstCrate s =
     (let s1 = s\<lparr>allEntities := c_entities cachedData,
                  expandedCrate := c_expandedCrate cachedData,
                  linkedDataHints := c_linkedDataHints cachedData,
                  currentCrateName := c_crateName cachedData,
                  fullCrateJson := Some (c_json cachedData),
                  currentUrl := sourceUrl\<rparr>
      in case normalizeDescriptorName (c_json cachedData) of
           Inl e \<Rightarrow> Inl (e, s1)
         | Inr normalizedJson \<Rightarrow>
             (case new_ROCrate E normalizedJson of
                Inl e \<Rightarrow> Inl (e, s1)
              | Inr c \<Rightarrow>
                  (case update_search_index isFirstCrate sourceUrl (s1\<lparr>crate := Some c\<rparr>) of
                     Inl es \<Rightarrow> Inl es
                   | Inr s2 \<Rightarrow> updateSelectedEntityView (s2\<lparr>selectedEntityId := ''./''\<rparr>))))"

text \<open>The expansion step: a failure of \<^verbatim>\<open>jsonld.expand\<close> or of \<^verbatim>\<open>buildLinkedDataHints\<close> is
  caught. The result is the pair of the local variables \<^verbatim>\<open>expanded\<close> and \<^verbatim>\<open>hints\<close>, which
  go into the cache, and the state.\<close>

definition expand_step :: "env \<Rightarrow> json \<Rightarrow> app \<Rightarrow> (json list \<times> hints) \<times> app" where
  "expand_step E json s =
     (case jsonld_expand E json of
        Inl e \<Rightarrow> (([], []), s\<lparr>expandedCrate := [], linkedDataHints := []\<rparr>)
      | Inr expanded \<Rightarrow>
          (case buildLinkedDataHints (jsonld_expand E) json expanded of
             Inl e \<Rightarrow> ((expanded, []), s\<lparr>expandedCrate := [], linkedDataHints := []\<rparr>)
           | Inr h \<Rightarrow> ((expanded, h), s\<lparr>expandedCrate := expanded, linkedDataHints := h\<rparr>)))"

text \<open>\<^verbatim>\<open>allEntities.value.find(root) || crate.value?.rootDataset\<close>, then the name, the cache
  entry and the selected entity.\<close>

definition name_and_cache :: "json \<Rightarrow> string \<Rightarrow> string option \<Rightarrow> json list \<Rightarrow> hints \<Rightarrow> app \<Rightarrow>
    (error \<times> app) + app" where
  "name_and_cache json sourceName sourceUrl expanded hs s =
     (case as_array (allEntities s) of
        Inl e \<Rightarrow> Inl (e, s)
      | Inr es \<Rightarrow>
          (case find_root es of
             Inl e \<Rightarrow> Inl (e, s)
           | Inr found \<Rightarrow>
               (let rootEntity = (if truthy found then found else crate_rootDataset (crate s));
                    s1 = s\<lparr>currentCrateName := getSafeName rootEntity sourceName\<rparr>;
                    s2 = (case sourceUrl of
                            None \<Rightarrow> s1
                          | Some u \<Rightarrow>
                              if u = [] then s1
                              else s1\<lparr>crateCache :=
                                (u, \<lparr>c_json = json, c_entities = allEntities s1,
                                     c_expandedCrate = expanded, c_linkedDataHints = hs,
                                     c_crateName = currentCrateName s1\<rparr>) # crateCache s1\<rparr>)
                in updateSelectedEntityView s2)))"

text \<open>The branch of \<^verbatim>\<open>processCrateData\<close> that processes a new document, up to the call of
  \<^verbatim>\<open>updateBreadcrumbsForCrate\<close>.\<close>

definition process_new :: "env \<Rightarrow> json \<Rightarrow> string \<Rightarrow> string option \<Rightarrow> bool \<Rightarrow> app \<Rightarrow>
    (error \<times> app) + app" where
  "process_new E json sourceName sourceUrl isFirstCrate s =
     (let s1 = s\<lparr>allEntities := JArr [], selectedEntityId := ''./'', selectedEntityData := None\<rparr>
      in case normalizeDescriptorName json of
           Inl e \<Rightarrow> Inl (e, s1)
         | Inr normalizedJson \<Rightarrow>
             (case new_ROCrate E normalizedJson of
                Inl e \<Rightarrow> Inl (e, s1)
              | Inr c \<Rightarrow>
                  (if is_nullish json then Inl (TypeError, s1\<lparr>crate := Some c\<rparr>)
                   else
                     case update_search_index isFirstCrate sourceUrl
                            (s1\<lparr>crate := Some c,
                                allEntities := (if truthy (member json ''@graph'')
                                                then member json ''@graph'' else JArr []),
                                fullCrateJson := Some json,
                                currentUrl := sourceUrl\<rparr>) of
                       Inl es \<Rightarrow> Inl es
                     | Inr s2 \<Rightarrow>
                         (case expand_step E json s2 of
                            ((expanded, hs), s3) \<Rightarrow>
                              name_and_cache json sourceName sourceUrl expanded hs s3))))"

definition processCrateData :: "env \<Rightarrow> json \<Rightarrow> string \<Rightarrow> string option \<Rightarrow> bool \<Rightarrow> app \<Rightarrow> app" where
  "processCrateData E json sourceName sourceUrl isFirstCrate s =
     (let s0 = (if isFirstCrate \<and> truthy_str sourceUrl then s\<lparr>rootCrateUrl := sourceUrl\<rparr> else s);
          cachedData = (case sourceUrl of
                          None \<Rightarrow> None
                        | Some u \<Rightarrow> if u = [] then None else map_of (crateCache s0) u)
      in case (case cachedData of
                 Some c \<Rightarrow> process_cached E c sourceUrl isFirstCrate s0
               | None \<Rightarrow> process_new E json sourceName sourceUrl isFirstCrate s0) of
           Inl (e, s') \<Rightarrow> s'\<lparr>errorMsg := Some (''Failed to process RO-Crate JSON: '' @ message e)\<rparr>
         | Inr s' \<Rightarrow> updateBreadcrumbsForCrate sourceUrl s')"

subsection \<open>Opening a crate\<close>

text \<open>The block that sets \<^verbatim>\<open>baseUrl\<close> from a URL or crate id (it occurs four times in the
  source): the \<^verbatim>\<open>href\<close> of the URL with a slash added to its path, or the string with a
  slash added when it is not a URL.\<close>

definition base_of :: "env \<Rightarrow> string \<Rightarrow> string" where
  "base_of E x =
     (case new_URL E x None of
        Some urlObj \<Rightarrow> href (set_pathname E urlObj (ensure_slash (pathname urlObj)))
      | None \<Rightarrow> ensure_slash x)"

text \<open>\<^verbatim>\<open>fetchMetadata\<close> (stateful mode): \<open>Inl\<close> is the error it throws, with the state
  unchanged; \<^verbatim>\<open>processCrateData\<close> itself never throws.\<close>

definition fetchMetadata :: "env \<Rightarrow> string \<Rightarrow> string \<Rightarrow> string option \<Rightarrow> bool \<Rightarrow> app \<Rightarrow>
    error + app" where
  "fetchMetadata E cid sourceName sourceUrl isFirstCrate s =
     (let apiCrateId = (if ends_with_slash cid then butlast cid else cid)
      in case indexing_metadata E apiCrateId of
           Inl e \<Rightarrow> Inl (Error (''Metadata fetch failed: '' @ message e))
         | Inr metadataJson \<Rightarrow>
             Inr (processCrateData E metadataJson sourceName sourceUrl isFirstCrate s))"

text \<open>\<^verbatim>\<open>crateCache.get(key)\<close> with the test \<^verbatim>\<open>cachedCrate && cachedCrate.json\<close>.\<close>

definition cached_json :: "app \<Rightarrow> string \<Rightarrow> json option" where
  "cached_json s key =
     (case map_of (crateCache s) key of
        None \<Rightarrow> None
      | Some c \<Rightarrow> if truthy (c_json c) then Some (c_json c) else None)"

definition load_indexed :: "env \<Rightarrow> string \<Rightarrow> string \<Rightarrow> string \<Rightarrow> bool \<Rightarrow> app \<Rightarrow> app" where
  "load_indexed E cid sourceName fetchUrl isFirstCrate s =
     (let s1 = s\<lparr>baseUrl := base_of E cid\<rparr>
      in case fetchMetadata E cid sourceName (Some fetchUrl) isFirstCrate s1 of
           Inl e \<Rightarrow> s1\<lparr>errorMsg := Some (''Error loading URL: '' @ message e), isLoading := False\<rparr>
         | Inr s2 \<Rightarrow> s2\<lparr>isLoading := False\<rparr>)"

definition loadFromUrl :: "env \<Rightarrow> app \<Rightarrow> app" where
  "loadFromUrl E s =
     (if inputUrl s = [] then s
      else
        let s1 = s\<lparr>errorMsg := None\<rparr>;
            isFirstCrate = (rootCrateUrl s1 = None);
            fetchUrl = inputUrl s1
        in case cached_json s1 fetchUrl of
             Some json \<Rightarrow>
               processCrateData E json ''Remote Crate (Cached)'' (Some fetchUrl) isFirstCrate
                 (s1\<lparr>baseUrl := base_of E fetchUrl\<rparr>)
           | None \<Rightarrow>
               (let s2 = s1\<lparr>isLoading := True\<rparr> in
                if isStateless E then
                  (case fetchCrateFromUrl (corsProxyUrl E) (fetch_url E) fetchUrl of
                     Inl e \<Rightarrow>
                       s2\<lparr>errorMsg := Some (''Error loading URL: '' @ message e),
                          isLoading := False\<rparr>
                   | Inr json \<Rightarrow>
                       (processCrateData E json ''Remote Crate'' (Some fetchUrl) isFirstCrate
                          (s2\<lparr>fullCrateJson := Some json, currentUrl := Some fetchUrl,
                              baseUrl := base_of E fetchUrl\<rparr>))
                       \<lparr>isLoading := False\<rparr>)
                else
                  (case indexing_url E fetchUrl of
                     IndexFailed e \<Rightarrow>
                       s2\<lparr>errorMsg := Some (''Error loading URL: '' @ message e),
                          isLoading := False\<rparr>
                   | AlreadyIndexed cid \<Rightarrow>
                       load_indexed E cid ''Remote Crate (Indexed)'' fetchUrl isFirstCrate s2
                   | Indexed cid \<Rightarrow>
                       load_indexed E cid ''Remote Crate'' fetchUrl isFirstCrate s2)))"

text \<open>\<^verbatim>\<open>loadFromPastedJson\<close>; the text of the paste field is a parameter.\<close>

definition loadFromPastedJson :: "env \<Rightarrow> string \<Rightarrow> app \<Rightarrow> app" where
  "loadFromPastedJson E pastedCrateText s =
     (if trim pastedCrateText = [] then s
      else
        let s1 = s\<lparr>isLoading := True, errorMsg := None, baseUrl := []\<rparr>
        in case JSON_parse E pastedCrateText of
             Inl e \<Rightarrow> s1\<lparr>errorMsg := Some (''Paste error: '' @ message e), isLoading := False\<rparr>
           | Inr parsed \<Rightarrow>
               (processCrateData E parsed ''Pasted Crate'' None True s1)\<lparr>isLoading := False\<rparr>)"

subsection \<open>Opening a nested crate\<close>

definition metadata_suffix :: string where
  "metadata_suffix = ''ro-crate-metadata.json''"

text \<open>The last segment of a string: what follows the last of the separators.\<close>

definition last_segment :: "char set \<Rightarrow> string \<Rightarrow> string" where
  "last_segment seps s = rev (takeWhile (\<lambda>c. c \<notin> seps) (rev s))"

text \<open>\<^verbatim>\<open>pathname.match(/([^\/]+ro-crate-metadata\.json)$/i)\<close>: the match is the last segment of
  the path, when it ends in the suffix (in any case of the letters) after at least one
  more character.\<close>

definition metadata_match :: "string \<Rightarrow> string option" where
  "metadata_match path =
     (let seg = last_segment {CHR ''/''} path
      in if ends_with (map to_lower seg) metadata_suffix \<and> length metadata_suffix < length seg
         then Some seg else None)"

text \<open>\<^verbatim>\<open>resolvedUrl.match(/[\/\\]([^\/\\]+ro-crate-metadata\.json)$/i)\<close>: as before, with
  a slash or backslash in front of the segment.\<close>

definition fallback_match :: "string \<Rightarrow> string option" where
  "fallback_match resolvedUrl =
     (let seg = last_segment {CHR ''/'', CHR 0x5C} resolvedUrl
      in if ends_with (map to_lower seg) metadata_suffix \<and> length metadata_suffix < length seg \<and>
            length seg < length resolvedUrl
         then Some seg else None)"

text \<open>The resolution of the reference: the pair of \<^verbatim>\<open>subcrateBaseUrl\<close> and
  \<^verbatim>\<open>metadataFilename\<close>.\<close>

definition resolve_subcrate :: "env \<Rightarrow> string \<Rightarrow> string \<Rightarrow> string \<times> string" where
  "resolve_subcrate E subcrateId base =
     (let resolvedUrl = (case new_URL E subcrateId (Some base) of
                           Some fullUrl \<Rightarrow> href fullUrl
                         | None \<Rightarrow> subcrateId);
          r = (case new_URL E resolvedUrl None of
                 Some urlObj \<Rightarrow>
                   (case metadata_match (pathname urlObj) of
                      Some m \<Rightarrow>
                        (let u1 = set_pathname E urlObj
                                    (join_str ''/'' (butlast (split_slash (pathname urlObj))));
                             u2 = (if \<not> ends_with_slash (pathname u1)
                                   then set_pathname E u1 (pathname u1 @ ''/'') else u1)
                         in (href u2, m))
                    | None \<Rightarrow> (ensure_slash resolvedUrl, metadata_suffix))
               | None \<Rightarrow>
                   (case fallback_match resolvedUrl of
                      Some m \<Rightarrow>
                        (take (length resolvedUrl - length m - 1) resolvedUrl @ ''/'', m)
                    | None \<Rightarrow> (ensure_slash resolvedUrl, metadata_suffix)))
      in (if fst r = [] then ''.'' else fst r, snd r))"

text \<open>The URL of the metadata file of the nested crate (stateless mode).\<close>

definition subcrate_fetchUrl :: "string \<Rightarrow> string \<Rightarrow> string" where
  "subcrate_fetchUrl subcrateBaseUrl metadataFilename =
     (if subcrateBaseUrl = ''.'' then metadataFilename
      else if ends_with (map to_lower subcrateBaseUrl) metadata_suffix then subcrateBaseUrl
      else if ends_with_slash subcrateBaseUrl then subcrateBaseUrl @ metadataFilename
      else subcrateBaseUrl @ ''/'' @ metadataFilename)"

text \<open>The second half of \<^verbatim>\<open>handleSubcrateOpen\<close>, from the cache lookup on, for the resolved
  \<^verbatim>\<open>subcrateBaseUrl\<close> and \<^verbatim>\<open>metadataFilename\<close>.\<close>

definition open_resolved :: "env \<Rightarrow> string \<Rightarrow> string \<Rightarrow> app \<Rightarrow> app" where
  "open_resolved E subcrateBaseUrl metadataFilename s2 =
     (let cacheKey = ensure_slash subcrateBaseUrl
      in case (if isStateless E then cached_json s2 cacheKey else None) of
           Some json \<Rightarrow>
             processCrateData E json ''Subcrate (Cached)'' (Some cacheKey) False
               (s2\<lparr>baseUrl := cacheKey, inputUrl := subcrateBaseUrl,
                   currentUrl := Some cacheKey\<rparr>)
         | None \<Rightarrow>
             (let s3 = s2\<lparr>isLoading := True\<rparr> in
              if isStateless E then
                (case fetchCrateFromUrl (corsProxyUrl E) (fetch_url E)
                        (subcrate_fetchUrl subcrateBaseUrl metadataFilename) of
                   Inl e \<Rightarrow>
                     s3\<lparr>errorMsg := Some (''Error loading subcrate: '' @ message e),
                        isLoading := False\<rparr>
                 | Inr json \<Rightarrow>
                     (processCrateData E json ''Subcrate'' (Some cacheKey) False
                        (s3\<lparr>baseUrl := cacheKey, inputUrl := subcrateBaseUrl,
                            currentUrl := Some cacheKey\<rparr>))
                     \<lparr>isLoading := False\<rparr>)
              else
                (let apiCrateId = (if ends_with_slash subcrateBaseUrl
                                   then butlast subcrateBaseUrl else subcrateBaseUrl);
                     s4 = s3\<lparr>baseUrl := cacheKey, inputUrl := subcrateBaseUrl,
                             currentUrl := Some cacheKey\<rparr>
                 in case fetchMetadata E apiCrateId ''Subcrate'' (Some cacheKey) False s4 of
                      Inl e \<Rightarrow>
                        s4\<lparr>errorMsg := Some (''Error loading subcrate: '' @ message e),
                           isLoading := False\<rparr>
                    | Inr s5 \<Rightarrow> s5\<lparr>isLoading := False\<rparr>)))"

text \<open>\<^verbatim>\<open>handleSubcrateOpen\<close>: the guard, the push onto the history stack, the resolution
  of the reference, and the reset of the error message.\<close>

definition handleSubcrateOpen :: "env \<Rightarrow> string \<Rightarrow> app \<Rightarrow> app" where
  "handleSubcrateOpen E subcrateId s =
     (if baseUrl s = [] then s
      else
        let s1 = s\<lparr>historyStack := historyStack s @
                     [\<lparr>h_name = currentCrateName s,
                       h_url = Some (case currentUrl s of
                                       Some u \<Rightarrow> if u = [] then baseUrl s else u
                                     | None \<Rightarrow> baseUrl s)\<rparr>]\<rparr>;
            r = resolve_subcrate E subcrateId (baseUrl s)
        in open_resolved E (fst r) (snd r) (s1\<lparr>errorMsg := None\<rparr>))"

subsection \<open>Breadcrumbs\<close>

definition goToBreadcrumb :: "env \<Rightarrow> nat \<Rightarrow> app \<Rightarrow> app" where
  "goToBreadcrumb E index s =
     (if index \<ge> length (historyStack s) then s
      else
        let target = historyStack s ! index in
        if \<not> truthy_str (h_url target) then s
        else loadFromUrl E
               (s\<lparr>historyStack := take index (historyStack s),
                  inputUrl := (case h_url target of Some u \<Rightarrow> u | None \<Rightarrow> [])\<rparr>))"

definition goBack :: "env \<Rightarrow> app \<Rightarrow> app" where
  "goBack E s =
     (if historyStack s = [] then s
      else
        let parent = last (historyStack s);
            s1 = s\<lparr>historyStack := butlast (historyStack s)\<rparr>
        in if truthy_str (h_url parent)
           then loadFromUrl E (s1\<lparr>inputUrl := (case h_url parent of Some u \<Rightarrow> u | None \<Rightarrow> [])\<rparr>)
           else s1)"

text \<open>The tree shown for a state (the computed property \<^verbatim>\<open>fileTree\<close>).\<close>

definition tree_of :: "sort_fn \<Rightarrow> collation \<Rightarrow> app \<Rightarrow> error + TreeNode" where
  "tree_of arraySort lc s = fileTree arraySort lc (crate s) (allEntities s) (currentCrateName s)"

section \<open>Notions used to state the properties\<close>

text \<open>\<open>tree_ok visited t\<close>: along every branch of \<open>t\<close>, a node whose id is already on the
  path (\<open>visited\<close> and the nodes above it) is a leaf of type \<^verbatim>\<open>"Link"\<close>, and no other node
  repeats an id of the path.\<close>

fun tree_ok :: "string set \<Rightarrow> TreeNode \<Rightarrow> bool" where
  "tree_ok visited (TreeNode n i ty ch d) =
     (if i \<in> visited then ty = JStr ''Link'' \<and> ch = []
      else (\<forall>c \<in> set ch. tree_ok (insert i visited) c))"


text \<open>The paths of a tree, from the root to each leaf.\<close>

fun paths :: "TreeNode \<Rightarrow> TreeNode list list" where
  "paths (TreeNode n i ty ch d) =
     (if ch = [] then [[TreeNode n i ty ch d]]
      else concat (map (\<lambda>c. map ((#) (TreeNode n i ty ch d)) (paths c)) ch))"

text \<open>A collation for the examples: it holds all strings equal.\<close>

definition flat_collation :: collation where
  "flat_collation a b = 0"

text \<open>An engine for the examples: the insertion sort. The elements are taken from left to
  right; each is compared, as first argument, with the elements placed before it, from
  the last one backwards, and put behind the first that does not come after it. The
  second argument of \<open>insert_later\<close> is the sorted part in reverse.\<close>

fun insert_later :: "('a \<Rightarrow> 'a \<Rightarrow> error + int) \<Rightarrow> 'a \<Rightarrow> 'a list \<Rightarrow> error + 'a list" where
  "insert_later cmp x [] = Inr [x]"
| "insert_later cmp x (y # ys) =
     (case cmp x y of
        Inl e \<Rightarrow> Inl e
      | Inr c \<Rightarrow>
          if c < 0
          then (case insert_later cmp x ys of Inl e \<Rightarrow> Inl e | Inr r \<Rightarrow> Inr (y # r))
          else Inr (x # y # ys))"

fun insertion_loop :: "('a \<Rightarrow> 'a \<Rightarrow> error + int) \<Rightarrow> 'a list \<Rightarrow> 'a list \<Rightarrow> error + 'a list" where
  "insertion_loop cmp [] placed = Inr (rev placed)"
| "insertion_loop cmp (x # xs) placed =
     (case insert_later cmp x placed of
        Inl e \<Rightarrow> Inl e
      | Inr placed' \<Rightarrow> insertion_loop cmp xs placed')"

definition insertion_sort :: "('a \<Rightarrow> 'a \<Rightarrow> error + int) \<Rightarrow> 'a list \<Rightarrow> error + 'a list" where
  "insertion_sort cmp xs = insertion_loop cmp xs []"

text \<open>A collation for the examples that orders strings by their length.\<close>

definition length_collation :: collation where
  "length_collation a b = int (length a) - int (length b)"

text \<open>A folder with the two parts \<^verbatim>\<open>qq\<close> and \<^verbatim>\<open>p\<close>, which are not entities of the graph, and
  its tree.\<close>

definition two_parts_entity :: json where
  "two_parts_entity = JObj [(''@id'', JStr ''r''), (''hasPart'', JArr [JStr ''qq'', JStr ''p''])]"

definition broken_link :: "string \<Rightarrow> TreeNode" where
  "broken_link i = TreeNode (JStr i) i (JStr ''Broken Link'') [] JNull"

definition two_parts_tree :: TreeNode where
  "two_parts_tree =
     TreeNode (JStr ''r'') ''r'' (JStr ''File'') [broken_link ''p'', broken_link ''qq''] two_parts_entity"

text \<open>\<open>cut_below k v\<close> keeps the first \<open>k\<close> levels of \<open>v\<close>; what lies deeper becomes
  \<^verbatim>\<open>undefined\<close>.\<close>

fun cut_below :: "nat \<Rightarrow> json \<Rightarrow> json" where
  "cut_below 0 v = JUndefined"
| "cut_below (Suc k) (JArr xs) = JArr (map (cut_below k) xs)"
| "cut_below (Suc k) (JObj kvs) = JObj (map (\<lambda>kv. (fst kv, cut_below k (snd kv))) kvs)"
| "cut_below (Suc k) v = v"

text \<open>The scenario of the self-referencing entity
  \<^verbatim>\<open>{"@id": "x", "hasPart": [{"@id": "x"}]}\<close>, and the tree it yields.\<close>

definition self_ref_entity :: json where
  "self_ref_entity = JObj [(''@id'', JStr ''x''), (''hasPart'', JArr [JObj [(''@id'', JStr ''x'')]])]"

definition self_ref_link :: TreeNode where
  "self_ref_link = TreeNode (JStr ''x (Link)'') ''x'' (JStr ''Link'') [] self_ref_entity"

definition self_ref_tree :: TreeNode where
  "self_ref_tree = TreeNode (JStr ''x'') ''x'' (JStr ''File'') [self_ref_link] self_ref_entity"

text \<open>A string under \<open>k\<close> nested arrays.\<close>

fun nested :: "nat \<Rightarrow> json \<Rightarrow> json" where
  "nested 0 v = v"
| "nested (Suc k) v = JArr [nested k v]"

text \<open>The URL that \<open>fetchCrateFromUrl\<close> requests: the CORS proxy, a slash if it does not end
  in one, and the crate's URL.\<close>

definition proxied :: "string \<Rightarrow> string \<Rightarrow> string" where
  "proxied configCorsProxyUrl url =
     (if configCorsProxyUrl \<noteq> [] \<and> last configCorsProxyUrl = CHR ''/''
      then configCorsProxyUrl else configCorsProxyUrl @ ''/'') @ url"

text \<open>A server that answers every request with \<open>200 OK\<close> and the document \<open>d\<close>, and a
  document with two root entities.\<close>

definition serving :: "json \<Rightarrow> fetch_fn" where
  "serving d url = Inr \<lparr>ok = True, status = 200, statusText = ''OK'', body_json = Inr d\<rparr>"

definition two_roots_graph :: "json list" where
  "two_roots_graph = [JObj [(''@id'', JStr ''./'')], JObj [(''@id'', JStr ''.'')]]"

definition two_roots_doc :: json where
  "two_roots_doc =
     JObj [(''@context'', JStr ''https://w3id.org/ro/crate/1.1/context''),
           (''@graph'', JArr two_roots_graph)]"

text \<open>The index entries that the entities of a package contribute: one per entity that
  has a truthy \<^verbatim>\<open>"@id"\<close> and a non-empty searchable content.\<close>

definition entries_of :: "json list \<Rightarrow> string \<Rightarrow> SearchIndexItem list" where
  "entries_of entities cid =
     map (\<lambda>e. \<lparr>entityId = member e ''@id'', crateId = cid,
                searchableContent = extractSearchableContent e\<rparr>)
       (filter (\<lambda>e. truthy (member e ''@id'') \<and> extractSearchableContent e \<noteq> []) entities)"

text \<open>\<open>nav_kept s s'\<close>: the navigation refs of \<open>s'\<close> are those of \<open>s\<close>.\<close>

definition nav_kept :: "app \<Rightarrow> app \<Rightarrow> bool" where
  "nav_kept s s' \<longleftrightarrow>
     historyStack s' = historyStack s \<and> rootCrateUrl s' = rootCrateUrl s \<and>
     inputUrl s' = inputUrl s \<and> baseUrl s' = baseUrl s \<and> errorMsg s' = errorMsg s \<and>
     isLoading s' = isLoading s \<and> currentUrl s' = currentUrl s"

text \<open>\<open>active_kept s s'\<close>: the active crate of \<open>s'\<close> is that of \<open>s\<close>: its entities, the
  library's crate, its name, the link hints and expanded nodes, the current locator, the
  base location, and with them the cache, the root locator and the search index.\<close>

definition active_kept :: "app \<Rightarrow> app \<Rightarrow> bool" where
  "active_kept s s' \<longleftrightarrow>
     allEntities s' = allEntities s \<and> crate s' = crate s \<and>
     currentCrateName s' = currentCrateName s \<and> linkedDataHints s' = linkedDataHints s \<and>
     expandedCrate s' = expandedCrate s \<and> currentUrl s' = currentUrl s \<and>
     baseUrl s' = baseUrl s \<and> crateCache s' = crateCache s \<and>
     rootCrateUrl s' = rootCrateUrl s \<and> search s' = search s"

text \<open>The locator that \<^verbatim>\<open>handleSubcrateOpen\<close> pushes: \<^verbatim>\<open>currentUrl.value || baseUrl.value\<close>.\<close>

definition locator :: "app \<Rightarrow> string" where
  "locator s = (case currentUrl s of Some u \<Rightarrow> if u = [] then baseUrl s else u | None \<Rightarrow> baseUrl s)"

text \<open>The locator of the nested crate that a reference resolves to.\<close>

definition subcrate_target :: "env \<Rightarrow> string \<Rightarrow> app \<Rightarrow> string" where
  "subcrate_target E subcrateId s = ensure_slash (fst (resolve_subcrate E subcrateId (baseUrl s)))"

text \<open>
  An example session. Two crates: the root at \<^verbatim>\<open>https://h/\<close> and a nested crate at
  \<^verbatim>\<open>https://h/a/\<close>, each with one entity, its root dataset. The collaborators answer as a
  browser and a server would on the inputs of the example: \<^verbatim>\<open>new URL\<close> on the references
  that occur, the server with the two documents (through the CORS proxy) and with
  \<^verbatim>\<open>404\<close> otherwise, \<^verbatim>\<open>JSON.parse\<close> on the unfinished text \<^verbatim>\<open>{\<close>; the expansion yields
  no nodes, the library's crate has no root dataset of its own, and the indexing service
  does not answer.
\<close>

definition demo_entity :: "string \<Rightarrow> json" where
  "demo_entity n = JObj [(''@id'', JStr ''./''), (''name'', JStr n)]"

definition demo_doc :: "string \<Rightarrow> json" where
  "demo_doc n =
     JObj [(''@context'', JStr ''https://w3id.org/ro/crate/1.1/context''),
           (''@graph'', JArr [demo_entity n])]"

definition demo_new_URL :: "string \<Rightarrow> string option \<Rightarrow> URL option" where
  "demo_new_URL input base =
     (if input = ''https://h/'' then Some \<lparr>href = ''https://h/'', pathname = ''/''\<rparr>
      else if input = ''https://h/a/'' then Some \<lparr>href = ''https://h/a/'', pathname = ''/a/''\<rparr>
      else if input = ''https://h/b/'' then Some \<lparr>href = ''https://h/b/'', pathname = ''/b/''\<rparr>
      else if input = ''a/'' \<and> base = Some ''https://h/''
      then Some \<lparr>href = ''https://h/a/'', pathname = ''/a/''\<rparr>
      else if input = ''b/'' \<and> base = Some ''https://h/''
      then Some \<lparr>href = ''https://h/b/'', pathname = ''/b/''\<rparr>
      else if input = ''../'' \<and> base = Some ''https://h/a/''
      then Some \<lparr>href = ''https://h/'', pathname = ''/''\<rparr>
      else None)"

definition demo_set_pathname :: "URL \<Rightarrow> string \<Rightarrow> URL" where
  "demo_set_pathname u p = \<lparr>href = ''https://h'' @ p, pathname = p\<rparr>"

definition demo_fetch :: fetch_fn where
  "demo_fetch url =
     (if url = ''https://cors.aruna-engine.org/https://h/'' then serving (demo_doc ''Root'') url
      else if url = ''https://cors.aruna-engine.org/https://h/a/ro-crate-metadata.json''
      then serving (demo_doc ''Sub'') url
      else Inr \<lparr>ok = False, status = 404, statusText = ''Not Found'',
                 body_json = Inl (Error ''Unexpected token'')\<rparr>)"

definition demo_parse :: "string \<Rightarrow> error + json" where
  "demo_parse t =
     (if t = ''null'' then Inr JNull else Inl (Error ''Unexpected end of JSON input''))"

definition demo_env :: "bool \<Rightarrow> env" where
  "demo_env stateless =
     \<lparr>isStateless = stateless,
      corsProxyUrl = ''https://cors.aruna-engine.org/'',
      fetch_url = demo_fetch,
      jsonld_expand = (\<lambda>d. Inr []),
      new_ROCrate = (\<lambda>j. Inr \<lparr>rootDataset = JUndefined\<rparr>),
      new_URL = demo_new_URL,
      set_pathname = demo_set_pathname,
      JSON_parse = demo_parse,
      indexing_url = (\<lambda>u. IndexFailed (Error ''Failed to fetch'')),
      indexing_metadata = (\<lambda>i. Inl (Error ''Failed to fetch''))\<rparr>"

text \<open>The state of the application when it is mounted.\<close>

definition initial_app :: app where
  "initial_app =
     \<lparr>inputUrl = ''https://rocrate.s3.computational.bio.uni-giessen.de/ro-crate-metadata.json'',
      currentUrl = None, crate = None, currentCrateName = JStr ''Root'', historyStack = [],
      allEntities = JArr [], expandedCrate = [], linkedDataHints = [],
      selectedEntityId = ''./'', selectedEntityData = None, crateCache = [],
      rootCrateUrl = None, fullCrateJson = None, isLoading = False, baseUrl = [],
      errorMsg = None, search = \<lparr>indexData = [], fuseInstance = None\<rparr>\<rparr>"

text \<open>The session: the user loads the root crate, then opens the nested crate.\<close>

definition demo_at_root :: app where
  "demo_at_root = loadFromUrl (demo_env True) (initial_app\<lparr>inputUrl := ''https://h/''\<rparr>)"

definition demo_at_sub :: app where
  "demo_at_sub = handleSubcrateOpen (demo_env True) ''a/'' demo_at_root"

text \<open>The states of the session, written out: the crate named \<open>n\<close> at \<open>u\<close> is active, with
  the given history, cache and index.\<close>

definition demo_hints :: hints where
  "demo_hints = [(''./'', [(''name'', \<lparr>propIri = None, valueIris = []\<rparr>)])]"

definition demo_cached :: "string \<Rightarrow> CachedCrate" where
  "demo_cached n =
     \<lparr>c_json = demo_doc n, c_entities = JArr [demo_entity n], c_expandedCrate = [],
      c_linkedDataHints = demo_hints, c_crateName = JStr n\<rparr>"

definition demo_item :: "string \<Rightarrow> string \<Rightarrow> SearchIndexItem" where
  "demo_item u n = \<lparr>entityId = JStr ''./'', crateId = u, searchableContent = ''@id ./ name '' @ n\<rparr>"

definition demo_state :: "string \<Rightarrow> string \<Rightarrow> HistoryItem list \<Rightarrow> (string \<times> CachedCrate) list \<Rightarrow>
    SearchIndexItem list \<Rightarrow> app" where
  "demo_state u n history cache items =
     \<lparr>inputUrl = u, currentUrl = Some u, crate = Some \<lparr>rootDataset = JUndefined\<rparr>,
      currentCrateName = JStr n, historyStack = history, allEntities = JArr [demo_entity n],
      expandedCrate = [], linkedDataHints = demo_hints, selectedEntityId = ''./'',
      selectedEntityData = Some (demo_entity n), crateCache = cache,
      rootCrateUrl = Some ''https://h/'', fullCrateJson = Some (demo_doc n), isLoading = False,
      baseUrl = u, errorMsg = None,
      search = \<lparr>indexData = items, fuseInstance = Some items\<rparr>\<rparr>"

text \<open>The hint of one property, as a function of the expansion of its probe document and
  of the expanded node of its entity: the first key of the first expanded node that does
  not start with \<^verbatim>\<open>@\<close>, and the value IRIs found under it.\<close>

definition iri_of :: "error + json list \<Rightarrow> string option" where
  "iri_of r =
     (case r of
        Inl e \<Rightarrow> None
      | Inr expanded \<Rightarrow>
          find (\<lambda>k. \<not> (k \<noteq> [] \<and> hd k = CHR ''@''))
            (map fst (entries (case expanded of
                                 [] \<Rightarrow> JObj []
                               | n # _ \<Rightarrow> if truthy n then n else JObj []))))"

definition hint_of :: "error + json list \<Rightarrow> json \<Rightarrow> hint" where
  "hint_of r expandedNode = \<lparr>propIri = iri_of r, valueIris = values_of expandedNode (iri_of r)\<rparr>"

text \<open>The key of an entity in the table of hints, and its expanded node
  (\<^verbatim>\<open>expandedNodes.find(...) || {}\<close>).\<close>

definition entity_key :: "json \<Rightarrow> string" where
  "entity_key entity = to_string (member entity ''@id'')"

definition node_of :: "json list \<Rightarrow> json \<Rightarrow> json" where
  "node_of expandedNodes entity =
     (case find_expanded expandedNodes entity of
        Inr found \<Rightarrow> if truthy found then found else JObj []
      | Inl e \<Rightarrow> JObj [])"

text \<open>\<^verbatim>\<open>hints[k]?.[p]\<close>: the hint recorded for the entity key \<open>k\<close> and the property \<open>p\<close>.\<close>

definition hint_at :: "hints \<Rightarrow> string \<Rightarrow> string \<Rightarrow> hint option" where
  "hint_at h k p = (case map_of h k of None \<Rightarrow> None | Some t \<Rightarrow> map_of t p)"

text \<open>\<^verbatim>\<open>json["@graph"] || []\<close>.\<close>

definition graph_of :: "json \<Rightarrow> json" where
  "graph_of json = (if truthy (member json ''@graph'') then member json ''@graph'' else JArr [])"

text \<open>A property cache is sound when it holds, for a property, what the expansion of its
  probe document gives.\<close>

definition cache_ok :: "expand_fn \<Rightarrow> json \<Rightarrow> propertyCache \<Rightarrow> bool" where
  "cache_ok expand context cache \<longleftrightarrow>
     (\<forall>p v. map_of cache p = Some v \<longrightarrow> v = iri_of (expand (probe context p)))"

text \<open>An example for the hints: one entity with the properties \<^verbatim>\<open>name\<close> and \<^verbatim>\<open>author\<close>. The
  expansion collaborator expands the probe document of \<^verbatim>\<open>author\<close> and the document itself,
  and fails on every other document.\<close>

definition hint_entity :: json where
  "hint_entity =
     JObj [(''@id'', JStr ''./''), (''@type'', JStr ''Dataset''), (''name'', JStr ''N''),
           (''author'', JObj [(''@id'', JStr ''#a'')])]"

definition hint_context :: json where
  "hint_context = JStr ''https://w3id.org/ro/crate/1.1/context''"

definition hint_doc :: json where
  "hint_doc = JObj [(''@context'', hint_context), (''@graph'', JArr [hint_entity])]"

definition hint_nodes :: "json list" where
  "hint_nodes =
     [JObj [(''@id'', JStr ''./''), (''@type'', JArr [JStr ''http://schema.org/Dataset'']),
            (''http://schema.org/author'', JArr [JObj [(''@id'', JStr ''#a'')]])]]"

definition hint_expand :: expand_fn where
  "hint_expand d =
     (if d = hint_doc then Inr hint_nodes
      else if d = probe hint_context ''author''
      then Inr [JObj [(''http://schema.org/author'', JArr [JObj [(''@value'', JStr ''x'')]])]]
      else Inl (Error ''Dereferencing a URL did not result in a valid JSON-LD object''))"

section \<open>Properties of the search service\<close>

lemma flattenValue_beyond: "maxDepth < depth \<Longrightarrow> flattenValue v depth maxDepth = []"
  by (simp add: flattenValue.simps [of v depth maxDepth])

lemma flattenValue_cut:
  "flattenValue (cut_below (maxDepth + 1 - depth) v) depth maxDepth = flattenValue v depth maxDepth"
proof (induction v depth maxDepth rule: flattenValue.induct)
  case (1 v depth maxDepth)
  show ?case
  proof (cases "maxDepth < depth")
    case True
    then show ?thesis by (simp add: flattenValue_beyond)
  next
    case False
    then obtain k where k: "maxDepth + 1 - depth = Suc k" "maxDepth + 1 - (depth + 1) = k"
      by (metis Suc_diff_le Suc_eq_plus1 add_diff_cancel_right' diff_Suc_Suc not_less)
    show ?thesis
    proof (cases v)
      case (JArr xs)
      have "\<And>x. x \<in> set xs \<Longrightarrow>
          flattenValue (cut_below k x) (depth + 1) maxDepth = flattenValue x (depth + 1) maxDepth"
        using "1.IH"(1)[OF False JArr] k by simp
      then show ?thesis using False JArr k
        by (simp add: flattenValue.simps [of "JArr _" depth maxDepth] comp_def cong: map_cong)
    next
      case (JObj kvs)
      have "\<And>kv. kv \<in> set kvs \<Longrightarrow> fst kv \<noteq> [] \<and> fst kv \<noteq> ''@context'' \<Longrightarrow>
          flattenValue (cut_below k (snd kv)) (depth + 1) maxDepth =
          flattenValue (snd kv) (depth + 1) maxDepth"
        using "1.IH"(2)[OF False JObj] k by simp
      then show ?thesis using False JObj k
        by (simp add: flattenValue.simps [of "JObj _" depth maxDepth] comp_def
            cong: map_cong if_cong)
    qed (use False k in \<open>simp_all add: flattenValue.simps [of _ depth maxDepth]\<close>)
  qed
qed

text \<open>
  C8. \<open>flattenValue\<close> is total: it is a total function of the logic, whose termination
  was proved from the depth bound alone. It returns a string for every value and has no
  branch that throws. It reads at most \<open>maxDepth + 1 - depth\<close> levels of its argument (11
  for the call \<open>flattenValue v 0 10\<close> of \<open>extractSearchableContent\<close>): what lies deeper does not
  change the result, and a call beyond the bound returns the empty string.
\<close>

theorem flattenValue_total_depth_bounded:
  "flattenValue v depth maxDepth =
     flattenValue (cut_below (maxDepth + 1 - depth) v) depth maxDepth \<and>
   (maxDepth < depth \<longrightarrow> flattenValue v depth maxDepth = [])"
  using flattenValue_cut[of maxDepth depth v] flattenValue_beyond[of maxDepth depth v] by simp

theorem flattenValue_total_depth_bounded_witness:
  "flattenValue (nested 11 (JStr ''deep'')) 0 10 =
     flattenValue (cut_below 11 (nested 11 (JStr ''deep''))) 0 10 \<and>
   flattenValue (nested 11 (JStr ''deep'')) 0 10 = [] \<and>
   flattenValue (nested 10 (JStr ''deep'')) 0 10 = ''deep'' \<and>
   (10 :: nat) < 11 \<and> flattenValue (nested 11 (JStr ''deep'')) 11 10 = []"
proof -
  have e: "nested 11 v = JArr [JArr [JArr [JArr [JArr [JArr [JArr [JArr [JArr [JArr [JArr [v]]]]]]]]]]]"
    "nested 10 v = JArr [JArr [JArr [JArr [JArr [JArr [JArr [JArr [JArr [JArr [v]]]]]]]]]]" for v
    by (simp_all add: eval_nat_numeral)
  have a: "flattenValue (nested 11 (JStr ''deep'')) 0 10 = []"
    unfolding e by (simp add: flattenValue.simps)
  have b: "flattenValue (nested 10 (JStr ''deep'')) 0 10 = ''deep''"
    unfolding e by (simp add: flattenValue.simps)
  have c: "(10 :: nat) < 11" by simp
  from flattenValue_total_depth_bounded[of "nested 11 (JStr ''deep'')" 0 10]
  have d: "flattenValue (nested 11 (JStr ''deep'')) 0 10 =
     flattenValue (cut_below 11 (nested 11 (JStr ''deep''))) 0 10" by simp
  from flattenValue_total_depth_bounded[of "nested 11 (JStr ''deep'')" 11 10] c
  have "flattenValue (nested 11 (JStr ''deep'')) 11 10 = []" by blast
  with a b c d show ?thesis by blast
qed

subsection \<open>The index\<close>

lemma push_entities_ok:
  "list_all (\<lambda>e. \<not> is_nullish e) es \<Longrightarrow>
   push_entities es cid acc = Inr (acc @ entries_of es cid)"
  by (induction es arbitrary: acc) (simp_all add: Let_def entries_of_def)

lemma push_entities_Inr:
  "push_entities es cid acc = Inr items \<Longrightarrow> list_all (\<lambda>e. \<not> is_nullish e) es"
  by (induction es arbitrary: acc) (simp_all add: Let_def split: if_splits)

lemma crateId_entries_of: "item \<in> set (entries_of es cid) \<Longrightarrow> crateId item = cid"
  by (auto simp: entries_of_def)

lemma filter_entries_of_same: "filter (\<lambda>item. crateId item = cid) (entries_of es cid) = entries_of es cid"
  by (rule filter_True) (simp add: crateId_entries_of)

lemma filter_entries_of_other: "filter (\<lambda>item. crateId item \<noteq> cid) (entries_of es cid) = []"
  by (rule filter_False) (simp add: crateId_entries_of)

lemma addToIndex_ok:
  assumes "list_all (\<lambda>e. \<not> is_nullish e) es" and "fuseInstance st \<noteq> None"
  shows "addToIndex (JArr es) cid st =
     Inr (st\<lparr>indexData := filter (\<lambda>item. crateId item \<noteq> cid) (indexData st) @ entries_of es cid,
             fuseInstance := Some (filter (\<lambda>item. crateId item \<noteq> cid) (indexData st) @ entries_of es cid)\<rparr>)"
  using assms by (auto simp: addToIndex_def push_entities_ok)

lemma buildSearchIndex_ok:
  assumes "list_all (\<lambda>e. \<not> is_nullish e) es"
  shows "buildSearchIndex (JArr es) cid st =
     Inr (st\<lparr>indexData := entries_of es cid, fuseInstance := Some (entries_of es cid)\<rparr>)"
  using assms by (simp add: buildSearchIndex_def push_entities_ok[of es cid "[]", simplified])

lemma addToIndex_returns:
  assumes "list_all (\<lambda>e. \<not> is_nullish e) es"
  shows "\<exists>st'. addToIndex (JArr es) cid st = Inr st' \<and> fuseInstance st' \<noteq> None"
proof (cases "fuseInstance st = None")
  case True
  with buildSearchIndex_ok[OF assms, of cid st] show ?thesis by (simp add: addToIndex_def)
next
  case False
  with addToIndex_ok[OF assms False, of cid] show ?thesis by simp
qed

text \<open>
  C2. Indexing \<open>E1\<close> under crate id \<open>A\<close> and then \<open>E2\<close> under \<open>A\<close> (with \<open>addToIndex\<close>, the
  operation that indexes a further package): both calls return, and afterwards the index
  holds the entries of the other crate ids that it held before the two calls, as they
  were and in their order, followed by the entries of \<open>E2\<close> under \<open>A\<close>. So under \<open>A\<close> there
  are exactly the entries of \<open>E2\<close>, none of \<open>E1\<close>; the entries of every other crate id are
  those before the second call, which are those before the first; and the Fuse instance
  is rebuilt over the whole of \<open>indexData\<close>. Only when no index exists yet (no Fuse
  instance) the first call builds the index from nothing. The entities are objects
  (\<^verbatim>\<open>Record<string, any>\<close>), not \<^verbatim>\<open>null\<close>.
\<close>

theorem reindex_replaces_entries_of_crate:
  assumes "list_all (\<lambda>e. \<not> is_nullish e) E1" and "list_all (\<lambda>e. \<not> is_nullish e) E2"
  shows "\<exists>s1 s2 :: search_state.
     addToIndex (JArr E1) A s0 = Inr s1 \<and> addToIndex (JArr E2) A s1 = Inr s2 \<and>
     indexData s1 =
       (if fuseInstance s0 = None then []
        else filter (\<lambda>item. crateId item \<noteq> A) (indexData s0)) @ entries_of E1 A \<and>
     indexData s2 =
       (if fuseInstance s0 = None then []
        else filter (\<lambda>item. crateId item \<noteq> A) (indexData s0)) @ entries_of E2 A \<and>
     filter (\<lambda>item. crateId item = A) (indexData s2) = entries_of E2 A \<and>
     filter (\<lambda>item. crateId item \<noteq> A) (indexData s2) =
       filter (\<lambda>item. crateId item \<noteq> A) (indexData s1) \<and>
     filter (\<lambda>item. crateId item \<noteq> A) (indexData s1) =
       (if fuseInstance s0 = None then []
        else filter (\<lambda>item. crateId item \<noteq> A) (indexData s0)) \<and>
     fuseInstance s2 = Some (indexData s2)"
proof -
  let ?kept = "if fuseInstance s0 = None then []
     else filter (\<lambda>item. crateId item \<noteq> A) (indexData s0)"
  let ?s1 = "s0\<lparr>indexData := ?kept @ entries_of E1 A,
                fuseInstance := Some (?kept @ entries_of E1 A)\<rparr>"
  let ?s2 = "s0\<lparr>indexData := ?kept @ entries_of E2 A,
                fuseInstance := Some (?kept @ entries_of E2 A)\<rparr>"
  have s1: "addToIndex (JArr E1) A s0 = Inr ?s1"
  proof (cases "fuseInstance s0 = None")
    case True
    with buildSearchIndex_ok[OF assms(1), of A s0] show ?thesis by (simp add: addToIndex_def)
  next
    case False
    with addToIndex_ok[OF assms(1) False, of A] show ?thesis by auto
  qed
  have k: "filter (\<lambda>item. crateId item \<noteq> A) ?kept = ?kept" by simp
  have f: "fuseInstance ?s1 \<noteq> None" by simp
  have "addToIndex (JArr E2) A ?s1 = Inr ?s2"
    using addToIndex_ok[OF assms(2) f, of A] k by (simp add: filter_entries_of_other)
  moreover have "filter (\<lambda>item. crateId item = A) (indexData ?s2) = entries_of E2 A"
    by (simp add: filter_entries_of_same)
  moreover have "filter (\<lambda>item. crateId item \<noteq> A) (indexData ?s2) =
       filter (\<lambda>item. crateId item \<noteq> A) (indexData ?s1)"
    by (simp add: filter_entries_of_other)
  moreover have "filter (\<lambda>item. crateId item \<noteq> A) (indexData ?s1) = ?kept"
    by (simp add: filter_entries_of_other)
  moreover have "indexData ?s1 = ?kept @ entries_of E1 A" "indexData ?s2 = ?kept @ entries_of E2 A"
    "fuseInstance ?s2 = Some (indexData ?s2)" by simp_all
  ultimately show ?thesis using s1 by blast
qed

text \<open>An index with an entry of the crate \<^verbatim>\<open>p0\<close>: after the two calls for \<^verbatim>\<open>p1\<close> it holds the
  entry of \<^verbatim>\<open>p0\<close> and the entry of the second call, not that of the first.\<close>

theorem reindex_replaces_entries_of_crate_witness:
  "list_all (\<lambda>e. \<not> is_nullish e) [JObj [(''@id'', JStr ''a''), (''name'', JStr ''Old'')]] \<and>
   list_all (\<lambda>e. \<not> is_nullish e) [JObj [(''@id'', JStr ''b''), (''name'', JStr ''Brian Smith'')]] \<and>
   (\<exists>s1 s2 :: search_state.
     addToIndex (JArr [JObj [(''@id'', JStr ''a''), (''name'', JStr ''Old'')]]) ''p1''
       \<lparr>indexData = [\<lparr>entityId = JStr ''./'', crateId = ''p0'', searchableContent = ''@id ./''\<rparr>],
        fuseInstance = Some [\<lparr>entityId = JStr ''./'', crateId = ''p0'', searchableContent = ''@id ./''\<rparr>]\<rparr>
       = Inr s1 \<and>
     addToIndex (JArr [JObj [(''@id'', JStr ''b''), (''name'', JStr ''Brian Smith'')]]) ''p1'' s1 = Inr s2 \<and>
     indexData s1 =
       [\<lparr>entityId = JStr ''./'', crateId = ''p0'', searchableContent = ''@id ./''\<rparr>,
        \<lparr>entityId = JStr ''a'', crateId = ''p1'', searchableContent = ''@id a name Old''\<rparr>] \<and>
     indexData s2 =
       [\<lparr>entityId = JStr ''./'', crateId = ''p0'', searchableContent = ''@id ./''\<rparr>,
        \<lparr>entityId = JStr ''b'', crateId = ''p1'', searchableContent = ''@id b name Brian Smith''\<rparr>] \<and>
     fuseInstance s2 = Some (indexData s2))"
proof -
  have e1: "entries_of [JObj [(''@id'', JStr ''a''), (''name'', JStr ''Old'')]] ''p1'' =
      [\<lparr>entityId = JStr ''a'', crateId = ''p1'', searchableContent = ''@id a name Old''\<rparr>]"
    by (simp add: entries_of_def extractSearchableContent_def flattenValue.simps trim_def
        is_space_def)
  have e2: "entries_of [JObj [(''@id'', JStr ''b''), (''name'', JStr ''Brian Smith'')]] ''p1'' =
      [\<lparr>entityId = JStr ''b'', crateId = ''p1'', searchableContent = ''@id b name Brian Smith''\<rparr>]"
    by (simp add: entries_of_def extractSearchableContent_def flattenValue.simps trim_def
        is_space_def)
  have h1: "list_all (\<lambda>e. \<not> is_nullish e) [JObj [(''@id'', JStr ''a''), (''name'', JStr ''Old'')]]"
    and h2: "list_all (\<lambda>e. \<not> is_nullish e) [JObj [(''@id'', JStr ''b''), (''name'', JStr ''Brian Smith'')]]"
    by simp_all
  from reindex_replaces_entries_of_crate[OF h1 h2, of "''p1''"
      "\<lparr>indexData = [\<lparr>entityId = JStr ''./'', crateId = ''p0'', searchableContent = ''@id ./''\<rparr>],
        fuseInstance = Some [\<lparr>entityId = JStr ''./'', crateId = ''p0'', searchableContent = ''@id ./''\<rparr>]\<rparr>"]
  obtain s1 s2 :: search_state where
    "addToIndex (JArr [JObj [(''@id'', JStr ''a''), (''name'', JStr ''Old'')]]) ''p1''
       \<lparr>indexData = [\<lparr>entityId = JStr ''./'', crateId = ''p0'', searchableContent = ''@id ./''\<rparr>],
        fuseInstance = Some [\<lparr>entityId = JStr ''./'', crateId = ''p0'', searchableContent = ''@id ./''\<rparr>]\<rparr>
       = Inr s1"
    "addToIndex (JArr [JObj [(''@id'', JStr ''b''), (''name'', JStr ''Brian Smith'')]]) ''p1'' s1 = Inr s2"
    "indexData s1 =
       [\<lparr>entityId = JStr ''./'', crateId = ''p0'', searchableContent = ''@id ./''\<rparr>,
        \<lparr>entityId = JStr ''a'', crateId = ''p1'', searchableContent = ''@id a name Old''\<rparr>]"
    "indexData s2 =
       [\<lparr>entityId = JStr ''./'', crateId = ''p0'', searchableContent = ''@id ./''\<rparr>,
        \<lparr>entityId = JStr ''b'', crateId = ''p1'', searchableContent = ''@id b name Brian Smith''\<rparr>]"
    "fuseInstance s2 = Some (indexData s2)"
    unfolding e1 e2 by auto
  with h1 h2 show ?thesis by blast
qed

section \<open>Properties of the crate loader\<close>

lemma validate_iff:
  "validateRoCrateJson d = Inr () \<longleftrightarrow>
     (\<exists>kvs graph. d = JObj kvs \<and> ''@context'' \<in> fst ` set kvs \<and>
        map_of kvs ''@graph'' = Some (JArr graph) \<and> graph \<noteq> [] \<and>
        (\<exists>entity \<in> set graph. get_prop_opt entity ''@id'' = JStr ''./'' \<or>
                                 get_prop_opt entity ''@id'' = JStr ''.''))"
proof (cases d)
  case (JObj kvs)
  show ?thesis
  proof (cases "map_of kvs ''@graph''")
    case None
    then have "''@graph'' \<notin> fst ` set kvs" by (simp add: map_of_eq_None_iff)
    with JObj None show ?thesis by (simp add: validateRoCrateJson_def)
  next
    case (Some g)
    then have k: "''@graph'' \<in> fst ` set kvs" by (metis map_of_eq_None_iff option.distinct(1))
    show ?thesis
    proof (cases g)
      case (JArr graph)
      with JObj Some k show ?thesis
        by (auto simp: validateRoCrateJson_def list_ex_iff is_root_id_def)
    qed (use JObj Some k in \<open>auto simp: validateRoCrateJson_def\<close>)
  qed
qed (auto simp: validateRoCrateJson_def)

lemma fetch_iff:
  "fetchCrateFromUrl proxy fetch url = Inr d \<longleftrightarrow>
     (\<exists>r. fetch (proxied proxy url) = Inr r \<and> ok r \<and> body_json r = Inr d \<and>
          validateRoCrateJson d = Inr ())"
proof (cases "fetch (proxied proxy url)")
  case (Inl e)
  then show ?thesis
    by (simp add: fetchCrateFromUrl_def proxied_def)
next
  case r: (Inr r)
  show ?thesis
  proof (cases "ok r")
    case False
    with r show ?thesis
      by (simp add: fetchCrateFromUrl_def proxied_def)
  next
    case True
    show ?thesis
    proof (cases "body_json r")
      case (Inl parseError)
      with r True show ?thesis
        by (simp add: fetchCrateFromUrl_def proxied_def)
    next
      case b: (Inr d')
      show ?thesis
      proof (cases "validateRoCrateJson d'")
        case (Inl e)
        with r True b show ?thesis
          by (auto simp add: fetchCrateFromUrl_def proxied_def)
      next
        case (Inr u)
        with r True b show ?thesis
          by (auto simp add: fetchCrateFromUrl_def proxied_def)
      qed
    qed
  qed
qed

lemma fetch_two_roots:
  "fetchCrateFromUrl ''https://cors.aruna-engine.org/'' (serving two_roots_doc)
     ''https://example.org/ro-crate-metadata.json'' = Inr two_roots_doc"
  unfolding fetch_iff validate_iff
  by (simp add: serving_def two_roots_doc_def two_roots_graph_def get_prop_opt_def)

text \<open>
  C7, as stated: fetching a document succeeds if and only if the retrieved data is an
  object with a context, a non-empty graph array and exactly one entity whose identifier
  is \<^verbatim>\<open>"./"\<close> or \<^verbatim>\<open>"."\<close>. The validation asks for some such entity
  (\<^verbatim>\<open>data['@graph'].some(...)\<close>), not for exactly one: a document with two root entities is
  fetched successfully.
\<close>

theorem fetch_accepts_two_root_entities:
  "fetchCrateFromUrl ''https://cors.aruna-engine.org/'' (serving two_roots_doc)
     ''https://example.org/ro-crate-metadata.json'' = Inr two_roots_doc \<and>
   member two_roots_doc ''@graph'' = JArr two_roots_graph \<and>
   length (filter (\<lambda>entity. is_root_id (get_prop_opt entity ''@id'')) two_roots_graph) = 2"
  by (simp add: fetch_two_roots)
    (simp add: two_roots_doc_def two_roots_graph_def get_prop_opt_def is_root_id_def)

text \<open>
  C7, amended: \<open>fetchCrateFromUrl\<close> returns the document \<open>d\<close> if and only if the request
  through the proxy is answered with an \<open>ok\<close> response whose body parses to \<open>d\<close>, and \<open>d\<close> is
  an object that has a \<^verbatim>\<open>"@context"\<close> key and whose \<^verbatim>\<open>"@graph"\<close> is a non-empty array with
  at least one entity whose \<^verbatim>\<open>"@id"\<close> is \<^verbatim>\<open>"./"\<close> or \<^verbatim>\<open>"."\<close>.
\<close>

theorem fetch_succeeds_iff_valid:
  "fetchCrateFromUrl proxy fetch url = Inr d \<longleftrightarrow>
     (\<exists>r. fetch (proxied proxy url) = Inr r \<and> ok r \<and> body_json r = Inr d \<and>
        (\<exists>kvs graph. d = JObj kvs \<and> ''@context'' \<in> fst ` set kvs \<and>
           map_of kvs ''@graph'' = Some (JArr graph) \<and> graph \<noteq> [] \<and>
           (\<exists>entity \<in> set graph. get_prop_opt entity ''@id'' = JStr ''./'' \<or>
                                    get_prop_opt entity ''@id'' = JStr ''.'')))"
  unfolding fetch_iff validate_iff ..

theorem fetch_succeeds_iff_valid_witness:
  "fetchCrateFromUrl ''https://cors.aruna-engine.org/'' (serving two_roots_doc)
     ''https://example.org/ro-crate-metadata.json'' = Inr two_roots_doc \<and>
   fetchCrateFromUrl ''https://cors.aruna-engine.org/''
     (serving (JObj [(''@context'', JStr ''c''), (''@graph'', JArr [])]))
     ''https://example.org/ro-crate-metadata.json'' \<noteq>
       Inr (JObj [(''@context'', JStr ''c''), (''@graph'', JArr [])])"
  unfolding fetch_succeeds_iff_valid
  by (simp add: serving_def two_roots_doc_def two_roots_graph_def get_prop_opt_def)

section \<open>Properties of the file tree\<close>

lemma sort_children_set:
  assumes "\<forall>cmp xs ys. arraySort cmp xs = Inr ys \<longrightarrow> set ys = set xs"
    and "sort_children arraySort lc xs = Inr ys"
  shows "set ys = set xs"
proof (cases "length xs < 2")
  case True
  with assms(2) show ?thesis by (simp add: sort_children_def)
next
  case False
  with assms(2) have "arraySort (compare_children lc) xs = Inr ys" by (simp add: sort_children_def)
  with assms(1) show ?thesis by blast
qed

lemma insert_later_set: "insert_later cmp x ys = Inr r \<Longrightarrow> set r = insert x (set ys)"
proof (induction ys arbitrary: r)
  case Nil
  then show ?case by auto
next
  case (Cons y ys)
  show ?case
  proof (cases "cmp x y")
    case (Inl e)
    with Cons.prems show ?thesis by simp
  next
    case (Inr c)
    show ?thesis
    proof (cases "c < 0")
      case True
      with Inr Cons.prems obtain r' where r': "insert_later cmp x ys = Inr r'" "r = y # r'"
        by (cases "insert_later cmp x ys") auto
      from Cons.IH[OF r'(1)] r'(2) show ?thesis by auto
    next
      case False
      with Inr Cons.prems show ?thesis by auto
    qed
  qed
qed

lemma insertion_loop_set:
  "insertion_loop cmp xs placed = Inr ys \<Longrightarrow> set ys = set xs \<union> set placed"
proof (induction xs arbitrary: placed)
  case Nil
  then show ?case by auto
next
  case (Cons x xs)
  from Cons.prems obtain placed' where i: "insert_later cmp x placed = Inr placed'"
    and l: "insertion_loop cmp xs placed' = Inr ys"
    by (cases "insert_later cmp x placed") auto
  from Cons.IH[OF l] insert_later_set[OF i] show ?case by auto
qed

lemma insertion_sort_set: "insertion_sort cmp xs = Inr ys \<Longrightarrow> set ys = set xs"
  using insertion_loop_set[of cmp xs "[]" ys] by (simp add: insertion_sort_def)

lemma buildTree_ok:
  assumes perm: "\<forall>cmp xs ys. arraySort cmp xs = Inr ys \<longrightarrow> set ys = set xs"
  shows "(\<forall>t. buildTree arraySort lc m i visited = Inr t \<longrightarrow> node_id t = i \<and> tree_ok visited t)"
    and "(\<forall>cs. forEach_part arraySort lc m cv parts pushed = Inr cs \<longrightarrow>
           (\<forall>c \<in> set pushed. tree_ok cv c) \<longrightarrow> (\<forall>c \<in> set cs. tree_ok cv c))"
  using perm
proof (induction arraySort lc m i visited and arraySort lc m cv parts pushed
    rule: buildTree_forEach_part.induct)
  case (1 arraySort lc entityMap entityId' visited)
  note perm = "1.prems"
  show ?case
  proof (intro allI impI)
    fix t assume t: "buildTree arraySort lc entityMap entityId' visited = Inr t"
    let ?entity = "Map_get entityMap entityId'"
    show "node_id t = entityId' \<and> tree_ok visited t"
    proof (cases "entityId' \<in> visited")
      case True
      with t have "t = TreeNode (JStr (to_string (getNodeName ?entity entityId') @ '' (Link)''))
                  entityId' (JStr ''Link'') [] ?entity"
        by (simp add: buildTree.simps[of arraySort lc entityMap entityId' visited] Let_def)
      with True show ?thesis by simp
    next
      case False
      show ?thesis
      proof (cases "truthy ?entity \<and> truthy (member ?entity ''hasPart'')")
        case hp: True
        define ps where "ps = (case member ?entity ''hasPart'' of JArr ps \<Rightarrow> ps | p \<Rightarrow> [p])"
        from t False hp have t': "(case forEach_part arraySort lc entityMap (insert entityId' visited) ps [] of
            Inl e \<Rightarrow> Inl e
          | Inr pushed \<Rightarrow> (case sort_children arraySort lc pushed of Inl e \<Rightarrow> Inl e
             | Inr ordered \<Rightarrow> Inr (TreeNode (getNodeName ?entity entityId') entityId' (typeStr ?entity) ordered
                        (if truthy ?entity then ?entity else JNull)))) = Inr t"
          by (simp add: buildTree.simps[of arraySort lc entityMap entityId' visited] Let_def ps_def)
        then obtain pushed where p: "forEach_part arraySort lc entityMap (insert entityId' visited) ps [] = Inr pushed"
          by (cases "forEach_part arraySort lc entityMap (insert entityId' visited) ps []") auto
        with t' obtain ordered where s: "sort_children arraySort lc pushed = Inr ordered"
          by (cases "sort_children arraySort lc pushed") auto
        with t' p have tt: "t = TreeNode (getNodeName ?entity entityId') entityId' (typeStr ?entity) ordered
                        (if truthy ?entity then ?entity else JNull)"
          by simp
        from "1.IH"[OF refl False refl hp perm] p
        have "\<forall>c \<in> set pushed. tree_ok (insert entityId' visited) c"
          unfolding ps_def by simp
        with sort_children_set[OF perm s] tt False show ?thesis by simp
      next
        case nhp: False
        with t False have "t = TreeNode (getNodeName ?entity entityId') entityId' (typeStr ?entity) []
                        (if truthy ?entity then ?entity else JNull)"
          by (simp add: buildTree.simps[of arraySort lc entityMap entityId' visited] Let_def
              sort_children_def)
        with False show ?thesis by simp
      qed
    qed
  qed
next
  case (2 arraySort lc entityMap currentVisited pushed)
  then show ?case by simp
next
  case (3 arraySort lc entityMap currentVisited part rest pushed)
  note perm = "3.prems"
  show ?case
  proof (intro allI impI)
    fix cs assume cs: "forEach_part arraySort lc entityMap currentVisited (part # rest) pushed = Inr cs"
      and ok: "\<forall>c \<in> set pushed. tree_ok currentVisited c"
    have nn: "\<not> is_nullish part"
    proof
      assume "is_nullish part"
      with cs show False by simp
    qed
    define pid where "pid = (if truthy (member part ''@id'') then member part ''@id'' else part)"
    from cs nn have cs': "(case pid of
          JStr partId \<Rightarrow>
            (case buildTree arraySort lc entityMap partId currentVisited of
               Inl e \<Rightarrow> Inl e
             | Inr child \<Rightarrow> forEach_part arraySort lc entityMap currentVisited rest (pushed @ [child]))
        | _ \<Rightarrow> forEach_part arraySort lc entityMap currentVisited rest pushed) = Inr cs"
      by (simp add: pid_def)
    show "\<forall>c \<in> set cs. tree_ok currentVisited c"
    proof (cases pid)
      case (JStr s)
      with cs' obtain child where
        c: "buildTree arraySort lc entityMap s currentVisited = Inr child"
        and r: "forEach_part arraySort lc entityMap currentVisited rest (pushed @ [child]) = Inr cs"
        by (cases "buildTree arraySort lc entityMap s currentVisited") auto
      from "3.IH"(5)[OF nn JStr[unfolded pid_def] perm] c have "tree_ok currentVisited child" by simp
      with ok have "\<forall>c \<in> set (pushed @ [child]). tree_ok currentVisited c" by simp
      with "3.IH"(6)[OF nn JStr[unfolded pid_def] c perm] r show ?thesis by blast
    next
      case JUndefined
      with cs' "3.IH"(1)[OF nn JUndefined[unfolded pid_def] perm] ok show ?thesis by simp
    next
      case JNull
      with cs' "3.IH"(2)[OF nn JNull[unfolded pid_def] perm] ok show ?thesis by simp
    next
      case (JBool b)
      with cs' "3.IH"(3)[OF nn JBool[unfolded pid_def] perm] ok show ?thesis by simp
    next
      case (JNum n)
      with cs' "3.IH"(4)[OF nn JNum[unfolded pid_def] perm] ok show ?thesis by simp
    next
      case (JArr xs)
      with cs' "3.IH"(7)[OF nn JArr[unfolded pid_def] perm] ok show ?thesis by simp
    next
      case (JObj kvs)
      with cs' "3.IH"(8)[OF nn JObj[unfolded pid_def] perm] ok show ?thesis by simp
    qed
  qed
qed

lemma paths_nonempty: "p \<in> set (paths t) \<Longrightarrow> p \<noteq> []"
  by (cases t) (auto split: if_splits)

lemma tree_ok_paths:
  "tree_ok visited t \<Longrightarrow> p \<in> set (paths t) \<Longrightarrow>
     distinct (map node_id (butlast p)) \<and>
     set (map node_id (butlast p)) \<inter> visited = {} \<and>
     children (last p) = [] \<and>
     (node_id (last p) \<in> set (map node_id (butlast p)) \<union> visited \<longrightarrow>
        node_type (last p) = JStr ''Link'')"
proof (induction t arbitrary: visited p)
  case (TreeNode n i ty ch d)
  show ?case
  proof (cases "ch = []")
    case True
    with TreeNode.prems show ?thesis by (auto split: if_splits)
  next
    case False
    with TreeNode.prems(2) obtain c q where c: "c \<in> set ch" and q: "q \<in> set (paths c)"
      and p: "p = TreeNode n i ty ch d # q"
      by auto
    from False TreeNode.prems(1) have i: "i \<notin> visited"
      by (auto split: if_splits)
    with TreeNode.prems(1) c have ok: "tree_ok (insert i visited) c" by simp
    from paths_nonempty[OF q] have qn: "q \<noteq> []" .
    from TreeNode.IH[OF c ok q] p qn i show ?thesis by auto
  qed
qed


lemma forEach_part_drop_head:
  assumes "\<not> is_nullish part" "\<forall>s. part \<noteq> JStr s" "\<forall>s. member part ''@id'' \<noteq> JStr s"
  shows "forEach_part arraySort lc em cv (part # rest) pushed = forEach_part arraySort lc em cv rest pushed"
proof -
  let ?pid = "if truthy (member part ''@id'') then member part ''@id'' else part"
  from assms have "\<forall>s. ?pid \<noteq> JStr s" by simp
  then show ?thesis using assms(1) by (cases ?pid) simp_all
qed

lemma forEach_part_drop:
  assumes "\<not> is_nullish part" "\<forall>s. part \<noteq> JStr s" "\<forall>s. member part ''@id'' \<noteq> JStr s"
  shows "forEach_part arraySort lc em cv (before @ part # rest) pushed = forEach_part arraySort lc em cv (before @ rest) pushed"
proof (induction before arbitrary: pushed)
  case Nil
  show ?case using forEach_part_drop_head[OF assms] by simp
next
  case (Cons b before)
  show ?case
    by (simp add: Cons.IH split: json.split sum.split)
qed


subsection \<open>The claims about the file tree\<close>

lemma buildTree_self_ref:
  "buildTree arraySort lc [(''x'', self_ref_entity)] ''x'' {} = Inr self_ref_tree"
  by (simp add: buildTree.simps Map_get_def getNodeName_def typeStr_def Let_def sort_children_def
      self_ref_entity_def self_ref_tree_def self_ref_link_def)

lemma buildTree_two_parts:
  "buildTree insertion_sort length_collation [(''r'', two_parts_entity)] ''r'' {} = Inr two_parts_tree"
  by (simp add: buildTree.simps Map_get_def getNodeName_def typeStr_def Let_def sort_children_def
      two_parts_entity_def two_parts_tree_def broken_link_def insertion_sort_def
      compare_children_def length_collation_def)

text \<open>
  C9. For the single self-referencing root entity
  \<^verbatim>\<open>{"@id": "x", "hasPart": [{"@id": "x"}]}\<close>, \<open>buildTree\<close> returns a tree whose root has id
  \<^verbatim>\<open>"x"\<close> and exactly one child, of type \<^verbatim>\<open>"Link"\<close>, with id \<^verbatim>\<open>"x"\<close> and no children; with
  every engine and every collation.
\<close>

theorem self_reference_yields_link:
  "buildTree arraySort lc
     [(''x'', JObj [(''@id'', JStr ''x''), (''hasPart'', JArr [JObj [(''@id'', JStr ''x'')]])])]
     ''x'' {} =
   Inr (TreeNode (JStr ''x'') ''x'' (JStr ''File'')
     [TreeNode (JStr ''x (Link)'') ''x'' (JStr ''Link'') []
        (JObj [(''@id'', JStr ''x''), (''hasPart'', JArr [JObj [(''@id'', JStr ''x'')]])])]
     (JObj [(''@id'', JStr ''x''), (''hasPart'', JArr [JObj [(''@id'', JStr ''x'')]])]))"
  by (simp add: buildTree.simps Map_get_def getNodeName_def typeStr_def Let_def sort_children_def)

text \<open>
  C10. In \<open>buildTree\<close>, an element of the part list that is not \<^verbatim>\<open>null\<close>, not a string and
  not an object whose \<^verbatim>\<open>"@id"\<close> is a string contributes no child node: the loop over the
  parts gives the same result with the element as without it.
\<close>

theorem part_without_id_contributes_nothing:
  assumes "\<not> is_nullish part"
    and "\<forall>s. part \<noteq> JStr s"
    and "\<forall>s. member part ''@id'' \<noteq> JStr s"
  shows "forEach_part arraySort lc entityMap currentVisited (before @ part # rest) pushed =
         forEach_part arraySort lc entityMap currentVisited (before @ rest) pushed"
  using assms by (rule forEach_part_drop)

theorem part_without_id_contributes_nothing_witness:
  "\<not> is_nullish (JNum 5) \<and> (\<forall>s. JNum 5 \<noteq> JStr s) \<and>
   (\<forall>s. member (JNum 5) ''@id'' \<noteq> JStr s) \<and>
   forEach_part insertion_sort flat_collation [] {} ([JStr ''a''] @ JNum 5 # [JBool True]) [] =
     Inr [TreeNode (JStr ''a'') ''a'' (JStr ''Broken Link'') [] JNull]"
  using part_without_id_contributes_nothing
    [of "JNum 5" insertion_sort flat_collation "[]" "{}" "[JStr ''a'']" "[JBool True]" "[]"]
  by (simp add: buildTree.simps Map_get_def getNodeName_def typeStr_def Let_def sort_children_def)

text \<open>
  C1, as stated: the root node of the tree has the root id, and no path from the root to
  a leaf repeats an id, the terminal \<^verbatim>\<open>Link\<close> nodes included. The second half fails: a
  \<^verbatim>\<open>Link\<close> node carries the id of the ancestor it refers to. In the tree of the
  self-referencing entity the path from the root to its only leaf is \<open>x, x\<close>.
\<close>

theorem link_node_repeats_ancestor_id:
  "buildTree insertion_sort flat_collation [(''x'', self_ref_entity)] ''x'' {} = Inr self_ref_tree \<and>
   [self_ref_tree, self_ref_link] \<in> set (paths self_ref_tree) \<and>
   \<not> distinct (map node_id [self_ref_tree, self_ref_link])"
  by (simp add: buildTree_self_ref) (simp add: self_ref_tree_def self_ref_link_def)

text \<open>
  C1, amended: with every engine whose \<^verbatim>\<open>sort\<close> returns the elements it was given (in some
  order; ECMAScript requires a permutation) and every collation, whenever \<open>buildTree\<close>
  returns a tree for the root id, the root node has that id, and on every path from the
  root to a leaf the nodes above the leaf have pairwise different ids; the leaf repeats
  one of them only if it is a childless node of type \<^verbatim>\<open>"Link"\<close>.
\<close>

theorem buildTree_root_and_paths:
  assumes "\<forall>cmp xs ys. arraySort cmp xs = Inr ys \<longrightarrow> set ys = set xs"
    and "buildTree arraySort lc entityMap rootId {} = Inr t"
    and "p \<in> set (paths t)"
  shows "node_id t = rootId \<and>
         distinct (map node_id (butlast p)) \<and>
         children (last p) = [] \<and>
         (node_id (last p) \<in> set (map node_id (butlast p)) \<longrightarrow>
            node_type (last p) = JStr ''Link'')"
proof -
  from buildTree_ok(1)[of arraySort lc entityMap rootId "{}", OF assms(1)] assms(2)
  have r: "node_id t = rootId" and ok: "tree_ok {} t" by simp_all
  from tree_ok_paths[OF ok assms(3)] r show ?thesis by simp
qed

text \<open>With the insertion sort: the tree of the self-referencing entity, and the tree of a
  folder with two parts, which the engine puts in order.\<close>

theorem buildTree_root_and_paths_witness:
  "buildTree insertion_sort flat_collation [(''x'', self_ref_entity)] ''x'' {} = Inr self_ref_tree \<and>
   [self_ref_tree, self_ref_link] \<in> set (paths self_ref_tree) \<and>
   node_id self_ref_tree = ''x'' \<and>
   distinct (map node_id (butlast [self_ref_tree, self_ref_link])) \<and>
   children (last [self_ref_tree, self_ref_link]) = [] \<and>
   node_id (last [self_ref_tree, self_ref_link]) \<in>
     set (map node_id (butlast [self_ref_tree, self_ref_link])) \<and>
   node_type (last [self_ref_tree, self_ref_link]) = JStr ''Link'' \<and>
   buildTree insertion_sort length_collation [(''r'', two_parts_entity)] ''r'' {} = Inr two_parts_tree \<and>
   [two_parts_tree, broken_link ''qq''] \<in> set (paths two_parts_tree) \<and>
   node_id two_parts_tree = ''r'' \<and>
   distinct (map node_id (butlast [two_parts_tree, broken_link ''qq''])) \<and>
   children (last [two_parts_tree, broken_link ''qq'']) = [] \<and>
   node_id (last [two_parts_tree, broken_link ''qq'']) \<notin>
     set (map node_id (butlast [two_parts_tree, broken_link ''qq'']))"
proof -
  have s: "\<forall>cmp xs ys. (insertion_sort :: sort_fn) cmp xs = Inr ys \<longrightarrow> set ys = set xs"
    by (simp add: insertion_sort_set)
  have b: "buildTree insertion_sort flat_collation [(''x'', self_ref_entity)] ''x'' {} = Inr self_ref_tree"
    by (rule buildTree_self_ref)
  have p: "[self_ref_tree, self_ref_link] \<in> set (paths self_ref_tree)"
    by (simp add: self_ref_tree_def self_ref_link_def)
  have b2: "buildTree insertion_sort length_collation [(''r'', two_parts_entity)] ''r'' {} =
      Inr two_parts_tree"
    by (rule buildTree_two_parts)
  have p2: "[two_parts_tree, broken_link ''qq''] \<in> set (paths two_parts_tree)"
    by (simp add: two_parts_tree_def broken_link_def)
  from buildTree_root_and_paths[OF s b p] buildTree_root_and_paths[OF s b2 p2] b p b2 p2
  show ?thesis
    by (simp add: self_ref_tree_def self_ref_link_def two_parts_tree_def broken_link_def)
qed

section \<open>Linked-data hints: proofs\<close>

lemma map_of_obj_set: "map_of (obj_set m k v) = (map_of m)(k \<mapsto> v)"
proof (induction m)
  case Nil
  show ?case by simp
next
  case (Cons a m)
  obtain k' v' where a: "a = (k', v')" by (cases a)
  show ?case
  proof (cases "k' = k")
    case True
    then show ?thesis by (simp add: a fun_eq_iff)
  next
    case False
    then show ?thesis by (auto simp: a Cons.IH fun_eq_iff)
  qed
qed

lemma foldl_obj_set_lookup:
  assumes "\<forall>kv \<in> set es. fst kv = p \<longrightarrow> snd kv = v"
    and "p \<in> fst ` set es \<or> map_of m p = Some v"
  shows "map_of (foldl (\<lambda>m kv. obj_set m (fst kv) (snd kv)) m es) p = Some v"
  using assms
proof (induction es arbitrary: m)
  case Nil
  then show ?case by simp
next
  case (Cons a es)
  have all: "\<forall>kv \<in> set es. fst kv = p \<longrightarrow> snd kv = v" using Cons.prems(1) by simp
  have "p \<in> fst ` set es \<or> map_of (obj_set m (fst a) (snd a)) p = Some v"
  proof (cases "fst a = p")
    case True
    then have "snd a = v" using Cons.prems(1) by simp
    with True show ?thesis by (simp add: map_of_obj_set)
  next
    case False
    with Cons.prems(2) show ?thesis by (auto simp: map_of_obj_set)
  qed
  from Cons.IH[OF all this] show ?case by simp
qed

lemma fromEntries_lookup:
  assumes "p \<in> set ps"
  shows "map_of (fromEntries (map (\<lambda>q. (q, f q)) ps)) p = Some (f p)"
proof -
  let ?es = "map (\<lambda>q. (q, f q)) ps"
  have "\<forall>kv \<in> set ?es. fst kv = p \<longrightarrow> snd kv = f p" by auto
  moreover have "p \<in> fst ` set ?es \<or> map_of [] p = Some (f p)"
    using assms by (auto simp: image_iff)
  ultimately show ?thesis unfolding fromEntries_def by (rule foldl_obj_set_lookup)
qed

lemma expandProperty_sound:
  assumes "cache_ok expand context cache"
  shows "fst (expandProperty expand context cache p) = iri_of (expand (probe context p))"
    and "cache_ok expand context (snd (expandProperty expand context cache p))"
proof -
  show "fst (expandProperty expand context cache p) = iri_of (expand (probe context p))"
  proof (cases "map_of cache p")
    case None
    then show ?thesis
      by (cases "expand (probe context p)") (simp_all add: expandProperty_def iri_of_def Let_def)
  next
    case (Some v)
    with assms have "v = iri_of (expand (probe context p))" by (simp add: cache_ok_def)
    with Some show ?thesis by (simp add: expandProperty_def)
  qed
  show "cache_ok expand context (snd (expandProperty expand context cache p))"
  proof (cases "map_of cache p")
    case None
    show ?thesis
    proof (cases "expand (probe context p)")
      case (Inl e)
      with None assms show ?thesis
        by (simp add: expandProperty_def iri_of_def cache_ok_def)
    next
      case (Inr expanded)
      with None assms show ?thesis
        by (simp add: expandProperty_def iri_of_def cache_ok_def Let_def)
    qed
  next
    case (Some v)
    with assms show ?thesis by (simp add: expandProperty_def)
  qed
qed

lemma prop_entries_sound:
  assumes "cache_ok expand context cache"
  shows "fst (prop_entries expand context node ps cache) =
           map (\<lambda>q. (q, hint_of (expand (probe context q)) node)) ps \<and>
         cache_ok expand context (snd (prop_entries expand context node ps cache))"
  using assms
proof (induction ps arbitrary: cache)
  case Nil
  then show ?case by simp
next
  case (Cons q ps)
  let ?r = "expandProperty expand context cache q"
  from expandProperty_sound[OF Cons.prems, of q]
  have i: "fst ?r = iri_of (expand (probe context q))" and c: "cache_ok expand context (snd ?r)"
    by simp_all
  from Cons.IH[OF c] i show ?case
    by (simp add: split_beta Let_def hint_of_def)
qed

lemma find_expanded_total:
  assumes "\<forall>n \<in> set nodes. \<not> is_nullish n"
  shows "\<exists>f. find_expanded nodes entity = Inr f"
  using assms by (induction nodes) simp_all

text \<open>The table of one entity.\<close>

lemma hints_loop_step:
  assumes "\<not> is_nullish entity" and "\<forall>n \<in> set nodes. \<not> is_nullish n"
    and "cache_ok expand context cache"
  shows "\<exists>cache1. cache_ok expand context cache1 \<and>
     hints_loop expand context nodes (entity # rest) cache hints =
     hints_loop expand context nodes rest cache1
       (obj_set hints (entity_key entity)
          (fromEntries (map (\<lambda>q. (q, hint_of (expand (probe context q)) (node_of nodes entity)))
             (props_of entity))))"
proof -
  from find_expanded_total[OF assms(2), of entity]
  obtain f where f: "find_expanded nodes entity = Inr f" by blast
  let ?node = "if truthy f then f else JObj []"
  let ?r = "prop_entries expand context ?node (props_of entity) cache"
  from prop_entries_sound[OF assms(3), of ?node "props_of entity"]
  have e: "fst ?r = map (\<lambda>q. (q, hint_of (expand (probe context q)) ?node)) (props_of entity)"
    and c: "cache_ok expand context (snd ?r)" by simp_all
  have n: "node_of nodes entity = ?node" by (simp add: node_of_def f)
  have "hints_loop expand context nodes (entity # rest) cache hints =
     hints_loop expand context nodes rest (snd ?r)
       (obj_set hints (entity_key entity) (fromEntries (fst ?r)))"
    using assms(1) by (simp add: f split_beta Let_def entity_key_def)
  with e c n show ?thesis by (intro exI[of _ "snd ?r"]) simp
qed

lemma hints_loop_total:
  assumes "\<forall>x \<in> set entities. \<not> is_nullish x" and "\<forall>n \<in> set nodes. \<not> is_nullish n"
    and "cache_ok expand context cache"
  shows "\<exists>h. hints_loop expand context nodes entities cache hints = Inr h"
  using assms
proof (induction entities arbitrary: cache hints)
  case Nil
  then show ?case by simp
next
  case (Cons x xs)
  from Cons.prems(1) have x: "\<not> is_nullish x" and xs: "\<forall>y \<in> set xs. \<not> is_nullish y" by simp_all
  from hints_loop_step[OF x Cons.prems(2,3), of xs hints]
  obtain c1 where c1: "cache_ok expand context c1"
    and s: "hints_loop expand context nodes (x # xs) cache hints =
      hints_loop expand context nodes xs c1
       (obj_set hints (entity_key x)
          (fromEntries (map (\<lambda>q. (q, hint_of (expand (probe context q)) (node_of nodes x)))
             (props_of x))))" by blast
  from Cons.IH[OF xs Cons.prems(2) c1] show ?case unfolding s by blast
qed

lemma hints_loop_frame:
  assumes "\<forall>x \<in> set entities. \<not> is_nullish x" and "\<forall>n \<in> set nodes. \<not> is_nullish n"
    and "cache_ok expand context cache"
    and "k \<notin> entity_key ` set entities"
    and "hints_loop expand context nodes entities cache hints = Inr h"
  shows "map_of h k = map_of hints k"
  using assms
proof (induction entities arbitrary: cache hints)
  case Nil
  then show ?case by simp
next
  case (Cons x xs)
  from Cons.prems(1) have x: "\<not> is_nullish x" and xs: "\<forall>y \<in> set xs. \<not> is_nullish y" by simp_all
  from Cons.prems(4) have kx: "entity_key x \<noteq> k" and kxs: "k \<notin> entity_key ` set xs" by auto
  from hints_loop_step[OF x Cons.prems(2,3), of xs hints]
  obtain c1 where c1: "cache_ok expand context c1"
    and s: "hints_loop expand context nodes (x # xs) cache hints =
      hints_loop expand context nodes xs c1
       (obj_set hints (entity_key x)
          (fromEntries (map (\<lambda>q. (q, hint_of (expand (probe context q)) (node_of nodes x)))
             (props_of x))))" by blast
  from Cons.prems(5) have
    "hints_loop expand context nodes xs c1
       (obj_set hints (entity_key x)
          (fromEntries (map (\<lambda>q. (q, hint_of (expand (probe context q)) (node_of nodes x)))
             (props_of x)))) = Inr h" unfolding s .
  from Cons.IH[OF xs Cons.prems(2) c1 kxs this] kx show ?case by (simp add: map_of_obj_set)
qed

lemma hints_loop_entry:
  assumes "\<forall>x \<in> set (pre @ entity # post). \<not> is_nullish x" and "\<forall>n \<in> set nodes. \<not> is_nullish n"
    and "cache_ok expand context cache"
    and "entity_key entity \<notin> entity_key ` set post"
    and "hints_loop expand context nodes (pre @ entity # post) cache hints = Inr h"
  shows "map_of h (entity_key entity) =
     Some (fromEntries (map (\<lambda>q. (q, hint_of (expand (probe context q)) (node_of nodes entity)))
             (props_of entity)))"
  using assms
proof (induction pre arbitrary: cache hints)
  case Nil
  from Nil.prems(1) have x: "\<not> is_nullish entity" and xs: "\<forall>y \<in> set post. \<not> is_nullish y"
    by simp_all
  from hints_loop_step[OF x Nil.prems(2,3), of post hints]
  obtain c1 where c1: "cache_ok expand context c1"
    and s: "hints_loop expand context nodes (entity # post) cache hints =
      hints_loop expand context nodes post c1
       (obj_set hints (entity_key entity)
          (fromEntries (map (\<lambda>q. (q, hint_of (expand (probe context q)) (node_of nodes entity)))
             (props_of entity))))" by blast
  from Nil.prems(5) have
    "hints_loop expand context nodes post c1
       (obj_set hints (entity_key entity)
          (fromEntries (map (\<lambda>q. (q, hint_of (expand (probe context q)) (node_of nodes entity)))
             (props_of entity)))) = Inr h" unfolding append_Nil s .
  from hints_loop_frame[OF xs Nil.prems(2) c1 Nil.prems(4) this]
  show ?case by (simp add: map_of_obj_set)
next
  case (Cons x xs)
  from Cons.prems(1) have x: "\<not> is_nullish x"
    and xs: "\<forall>y \<in> set (xs @ entity # post). \<not> is_nullish y" by simp_all
  from hints_loop_step[OF x Cons.prems(2,3), of "xs @ entity # post" hints]
  obtain c1 where c1: "cache_ok expand context c1"
    and s: "hints_loop expand context nodes (x # xs @ entity # post) cache hints =
      hints_loop expand context nodes (xs @ entity # post) c1
       (obj_set hints (entity_key x)
          (fromEntries (map (\<lambda>q. (q, hint_of (expand (probe context q)) (node_of nodes x)))
             (props_of x))))" by blast
  from Cons.prems(5) have
    "hints_loop expand context nodes (xs @ entity # post) c1
       (obj_set hints (entity_key x)
          (fromEntries (map (\<lambda>q. (q, hint_of (expand (probe context q)) (node_of nodes x)))
             (props_of x)))) = Inr h" unfolding append_Cons s .
  from Cons.IH[OF xs Cons.prems(2) c1 Cons.prems(4) this] show ?case .
qed

lemma cache_ok_empty: "cache_ok expand context []"
  by (simp add: cache_ok_def)

lemma buildLinkedDataHints_unfold:
  assumes "\<not> is_nullish json" and "iterate (graph_of json) = Inr entities"
  shows "buildLinkedDataHints expand json nodes =
     (if \<not> truthy (member json ''@context'') then Inr []
      else hints_loop expand (member json ''@context'') nodes entities [] [])"
  using assms by (simp add: buildLinkedDataHints_def graph_of_def Let_def)

text \<open>
  C6, as stated: \<^verbatim>\<open>buildLinkedDataHints\<close> never throws, and when the context is absent the
  hint of a property is recorded with an empty set of value IRIs. Both fail. Without a
  context the function returns the empty table: for the example entity no hint is recorded
  at all, neither for \<^verbatim>\<open>name\<close> nor for \<^verbatim>\<open>author\<close>. And for a graph with the element
  \<^verbatim>\<open>null\<close> the function throws a \<^verbatim>\<open>TypeError\<close> (at \<^verbatim>\<open>Object.keys(entity)\<close>).
\<close>

theorem no_context_records_no_hint:
  "props_of hint_entity = [''name'', ''author''] \<and>
   buildLinkedDataHints hint_expand (JObj [(''@graph'', JArr [hint_entity])]) hint_nodes = Inr [] \<and>
   hint_at [] (entity_key hint_entity) ''name'' = None \<and>
   buildLinkedDataHints hint_expand (JObj [(''@context'', hint_context), (''@graph'', JArr [JNull])])
     hint_nodes = Inl TypeError"
  by (simp add: props_of_def hint_entity_def buildLinkedDataHints_def hint_at_def hint_context_def)

text \<open>
  C6, amended: for a document that is not \<^verbatim>\<open>null\<close>, whose graph can be iterated and has no
  \<^verbatim>\<open>null\<close> element, and for expanded nodes none of which is \<^verbatim>\<open>null\<close>, \<^verbatim>\<open>buildLinkedDataHints\<close>
  returns a table. Without a context the table is empty. With a context, for an entity of
  the graph (the last one with its key) and each of its properties other than \<^verbatim>\<open>@id\<close> and
  \<^verbatim>\<open>@type\<close>, the hint recorded is determined by the expansion of the probe document of this
  property alone and by the expanded node of the entity; when that expansion fails, the
  hint has no property IRI and no value IRIs.
\<close>

theorem link_hints_total_and_local:
  assumes "\<not> is_nullish json"
    and "iterate (graph_of json) = Inr entities"
    and "\<forall>x \<in> set entities. \<not> is_nullish x"
    and "\<forall>n \<in> set expandedNodes. \<not> is_nullish n"
  shows "\<exists>h. buildLinkedDataHints expand json expandedNodes = Inr h \<and>
     (\<not> truthy (member json ''@context'') \<longrightarrow> h = []) \<and>
     (truthy (member json ''@context'') \<and> entities = pre @ entity # post \<and>
      entity_key entity \<notin> entity_key ` set post \<and> p \<in> set (props_of entity) \<longrightarrow>
        hint_at h (entity_key entity) p =
          Some (hint_of (expand (probe (member json ''@context'') p)) (node_of expandedNodes entity)) \<and>
        (expand (probe (member json ''@context'') p) = Inl e \<longrightarrow>
           hint_at h (entity_key entity) p = Some \<lparr>propIri = None, valueIris = []\<rparr>))"
proof (cases "truthy (member json ''@context'')")
  case False
  then show ?thesis by (simp add: buildLinkedDataHints_unfold[OF assms(1,2)])
next
  case True
  let ?ctx = "member json ''@context''"
  from hints_loop_total[OF assms(3,4) cache_ok_empty, of expand ?ctx "[]"]
  obtain h where h: "hints_loop expand ?ctx expandedNodes entities [] [] = Inr h" by blast
  have b: "buildLinkedDataHints expand json expandedNodes = Inr h"
    using True h by (simp add: buildLinkedDataHints_unfold[OF assms(1,2)])
  have main: "hint_at h (entity_key entity) p =
        Some (hint_of (expand (probe ?ctx p)) (node_of expandedNodes entity))"
    if e: "entities = pre @ entity # post" and k: "entity_key entity \<notin> entity_key ` set post"
      and p: "p \<in> set (props_of entity)"
  proof -
    from assms(3) e have a: "\<forall>x \<in> set (pre @ entity # post). \<not> is_nullish x" by simp
    from h e have l: "hints_loop expand ?ctx expandedNodes (pre @ entity # post) [] [] = Inr h"
      by simp
    from hints_loop_entry[OF a assms(4) cache_ok_empty k l]
    show ?thesis by (simp add: hint_at_def fromEntries_lookup[OF p])
  qed
  have fail: "hint_of (expand (probe ?ctx p)) (node_of expandedNodes entity) =
      \<lparr>propIri = None, valueIris = []\<rparr>" if "expand (probe ?ctx p) = Inl e"
    using that by (simp add: hint_of_def iri_of_def values_of_def)
  from True b main fail show ?thesis by (intro exI[of _ h]) simp
qed

text \<open>On the example: the expansion of the probe document of \<^verbatim>\<open>name\<close> fails, that of
  \<^verbatim>\<open>author\<close> succeeds.\<close>

theorem link_hints_total_and_local_witness:
  "buildLinkedDataHints hint_expand hint_doc hint_nodes =
     Inr [(''./'', [(''name'', \<lparr>propIri = None, valueIris = []\<rparr>),
                    (''author'', \<lparr>propIri = Some ''http://schema.org/author'', valueIris = [''#a'']\<rparr>)])] \<and>
   truthy (member hint_doc ''@context'') \<and>
   iterate (graph_of hint_doc) = Inr [hint_entity] \<and>
   hint_expand (probe (member hint_doc ''@context'') ''name'') =
     Inl (Error ''Dereferencing a URL did not result in a valid JSON-LD object'') \<and>
   hint_at [(''./'', [(''name'', \<lparr>propIri = None, valueIris = []\<rparr>),
                    (''author'', \<lparr>propIri = Some ''http://schema.org/author'', valueIris = [''#a'']\<rparr>)])]
     (entity_key hint_entity) ''name'' = Some \<lparr>propIri = None, valueIris = []\<rparr> \<and>
   hint_of (hint_expand (probe (member hint_doc ''@context'') ''author'')) (node_of hint_nodes hint_entity) =
     \<lparr>propIri = Some ''http://schema.org/author'', valueIris = [''#a'']\<rparr>"
  using link_hints_total_and_local[of hint_doc "[hint_entity]" hint_nodes hint_expand Nil hint_entity
      Nil "''name''" "Error ''Dereferencing a URL did not result in a valid JSON-LD object''"]
  by (simp add: buildLinkedDataHints_def hint_doc_def hint_entity_def hint_nodes_def hint_expand_def
      hint_context_def graph_of_def props_of_def expandProperty_def probe_def Let_def values_of_def
      fromEntries_def hint_at_def entity_key_def hint_of_def iri_of_def node_of_def)

section \<open>Properties of loading and navigation\<close>

subsection \<open>What the steps of processCrateData leave unchanged\<close>

lemma update_search_index_only:
  "update_search_index f src s = Inr s' \<Longrightarrow> \<exists>st. s' = s\<lparr>search := st\<rparr>"
  by (cases "if f then buildSearchIndex (allEntities s)
        (case src of None \<Rightarrow> ''primary'' | Some u \<Rightarrow> if u = [] then ''primary'' else u) (search s)
      else addToIndex (allEntities s)
        (case src of None \<Rightarrow> ''primary'' | Some u \<Rightarrow> if u = [] then ''primary'' else u) (search s)")
    (auto simp: update_search_index_def Let_def)

lemma updateSelectedEntityView_only:
  "updateSelectedEntityView s = Inr s' \<Longrightarrow> \<exists>d. s' = s\<lparr>selectedEntityData := d\<rparr>"
  unfolding updateSelectedEntityView_def
  by (auto split: sum.splits)

lemma expand_step_only:
  "expand_step E json s = (r, s') \<Longrightarrow> \<exists>ex h. s' = s\<lparr>expandedCrate := ex, linkedDataHints := h\<rparr>"
  unfolding expand_step_def
  by (auto split: sum.splits)

lemma update_search_index_kept: "update_search_index f src s = Inr s' \<Longrightarrow> nav_kept s s'"
  by (drule update_search_index_only) (auto simp: nav_kept_def)

lemma updateSelectedEntityView_kept: "updateSelectedEntityView s = Inr s' \<Longrightarrow> nav_kept s s'"
  by (drule updateSelectedEntityView_only) (auto simp: nav_kept_def)

lemma expand_step_kept: "expand_step E json s = (r, s') \<Longrightarrow> nav_kept s s'"
  by (drule expand_step_only) (auto simp: nav_kept_def)

lemma nav_kept_trans: "nav_kept s s' \<Longrightarrow> nav_kept s' s'' \<Longrightarrow> nav_kept s s''"
  by (simp add: nav_kept_def)

lemma name_and_cache_kept:
  assumes "name_and_cache json n src ex hs s = Inr s'"
  shows "nav_kept s s'"
proof -
  from assms obtain es where es: "as_array (allEntities s) = Inr es"
    by (cases "as_array (allEntities s)") (auto simp: name_and_cache_def)
  with assms obtain found where f: "find_root es = Inr found"
    by (cases "find_root es") (auto simp: name_and_cache_def)
  define s1 where "s1 = s\<lparr>currentCrateName := getSafeName
      (if truthy found then found else crate_rootDataset (crate s)) n\<rparr>"
  define s2 where "s2 = (case src of None \<Rightarrow> s1
     | Some u \<Rightarrow> if u = [] then s1
        else s1\<lparr>crateCache := (u, \<lparr>c_json = json, c_entities = allEntities s1,
               c_expandedCrate = ex, c_linkedDataHints = hs,
               c_crateName = currentCrateName s1\<rparr>) # crateCache s1\<rparr>)"
  from assms es f have u: "updateSelectedEntityView s2 = Inr s'"
    unfolding name_and_cache_def Let_def s1_def s2_def by simp
  have "nav_kept s s2"
    by (cases src) (auto simp: s2_def s1_def nav_kept_def)
  with updateSelectedEntityView_kept[OF u] show ?thesis
    by (rule nav_kept_trans[rotated])
qed

lemma process_new_kept:
  assumes "process_new E json n src f s = Inr s'"
  shows "nav_kept (s\<lparr>currentUrl := src\<rparr>) s'"
proof -
  define s1 where "s1 = s\<lparr>allEntities := JArr [], selectedEntityId := ''./'',
    selectedEntityData := None\<rparr>"
  from assms obtain nj where nj: "normalizeDescriptorName json = Inr nj"
    by (cases "normalizeDescriptorName json") (auto simp: process_new_def Let_def)
  with assms obtain c where c: "new_ROCrate E nj = Inr c"
    by (cases "new_ROCrate E nj") (auto simp: process_new_def Let_def)
  from assms nj c have nn: "\<not> is_nullish json"
    by (auto simp: process_new_def Let_def split: if_splits)
  define s1' where "s1' = s1\<lparr>crate := Some c,
       allEntities := (if truthy (member json ''@graph'') then member json ''@graph'' else JArr []),
       fullCrateJson := Some json, currentUrl := src\<rparr>"
  from assms nj c nn obtain s2 where s2: "update_search_index f src s1' = Inr s2"
    unfolding process_new_def Let_def s1_def s1'_def
    by (cases "update_search_index f src (s\<lparr>allEntities := JArr [], selectedEntityId := ''./'',
    selectedEntityData := None\<rparr>\<lparr>crate := Some c,
       allEntities := (if truthy (member json ''@graph'') then member json ''@graph'' else JArr []),
       fullCrateJson := Some json, currentUrl := src\<rparr>)") auto
  obtain ex hs s3 where e: "expand_step E json s2 = ((ex, hs), s3)"
    by (metis surj_pair)
  from assms nj c nn s2 e have nc: "name_and_cache json n src ex hs s3 = Inr s'"
    unfolding process_new_def Let_def s1_def s1'_def by simp
  have "nav_kept (s\<lparr>currentUrl := src\<rparr>) s1'"
    by (simp add: nav_kept_def s1'_def s1_def)
  from nav_kept_trans[OF this update_search_index_kept[OF s2]]
  have "nav_kept (s\<lparr>currentUrl := src\<rparr>) s2" .
  from nav_kept_trans[OF this expand_step_kept[OF e]]
  have "nav_kept (s\<lparr>currentUrl := src\<rparr>) s3" .
  from nav_kept_trans[OF this name_and_cache_kept[OF nc]] show ?thesis .
qed

lemma process_cached_kept:
  assumes "process_cached E cd src f s = Inr s'"
  shows "nav_kept (s\<lparr>currentUrl := src\<rparr>) s'"
proof -
  define s1 where "s1 = s\<lparr>allEntities := c_entities cd,
                  expandedCrate := c_expandedCrate cd,
                  linkedDataHints := c_linkedDataHints cd,
                  currentCrateName := c_crateName cd,
                  fullCrateJson := Some (c_json cd),
                  currentUrl := src\<rparr>"
  from assms obtain nj where nj: "normalizeDescriptorName (c_json cd) = Inr nj"
    by (cases "normalizeDescriptorName (c_json cd)") (auto simp: process_cached_def Let_def)
  with assms obtain c where c: "new_ROCrate E nj = Inr c"
    by (cases "new_ROCrate E nj") (auto simp: process_cached_def Let_def)
  from assms nj c obtain s2 where s2: "update_search_index f src (s1\<lparr>crate := Some c\<rparr>) = Inr s2"
    unfolding process_cached_def Let_def s1_def
    by (cases "update_search_index f src (s\<lparr>allEntities := c_entities cd,
                  expandedCrate := c_expandedCrate cd,
                  linkedDataHints := c_linkedDataHints cd,
                  currentCrateName := c_crateName cd,
                  fullCrateJson := Some (c_json cd),
                  currentUrl := src\<rparr>\<lparr>crate := Some c\<rparr>)") auto
  from assms nj c s2 have u: "updateSelectedEntityView (s2\<lparr>selectedEntityId := ''./''\<rparr>) = Inr s'"
    unfolding process_cached_def Let_def s1_def by simp
  have "nav_kept (s\<lparr>currentUrl := src\<rparr>) (s1\<lparr>crate := Some c\<rparr>)"
    by (simp add: nav_kept_def s1_def)
  from nav_kept_trans[OF this update_search_index_kept[OF s2]]
  have "nav_kept (s\<lparr>currentUrl := src\<rparr>) s2" .
  then have "nav_kept (s\<lparr>currentUrl := src\<rparr>) (s2\<lparr>selectedEntityId := ''./''\<rparr>)"
    by (simp add: nav_kept_def)
  from nav_kept_trans[OF this updateSelectedEntityView_kept[OF u]] show ?thesis .
qed

text \<open>\<^verbatim>\<open>processCrateData\<close> either records an error, or ends with
  \<^verbatim>\<open>updateBreadcrumbsForCrate\<close> in a state that differs from the initial one in the root URL
  (for a first crate), the current URL, and the data of the crate.\<close>

lemma processCrateData_cases:
  "(\<exists>e s1. processCrateData E json n src f s = s1\<lparr>errorMsg := Some e\<rparr>) \<or>
   (\<exists>s1. processCrateData E json n src f s = updateBreadcrumbsForCrate src s1 \<and>
      nav_kept ((if f \<and> truthy_str src then s\<lparr>rootCrateUrl := src\<rparr> else s)\<lparr>currentUrl := src\<rparr>) s1)"
proof -
  define s0 where "s0 = (if f \<and> truthy_str src then s\<lparr>rootCrateUrl := src\<rparr> else s)"
  define cd where "cd = (case src of None \<Rightarrow> None
     | Some u \<Rightarrow> if u = [] then None else map_of (crateCache s0) u)"
  define body where "body = (case cd of
       Some c \<Rightarrow> process_cached E c src f s0
     | None \<Rightarrow> process_new E json n src f s0)"
  have p: "processCrateData E json n src f s =
    (case body of
       Inl (e, s') \<Rightarrow> s'\<lparr>errorMsg := Some (''Failed to process RO-Crate JSON: '' @ message e)\<rparr>
     | Inr s' \<Rightarrow> updateBreadcrumbsForCrate src s')"
    unfolding processCrateData_def Let_def s0_def cd_def body_def by (rule refl)
  show ?thesis
  proof (cases body)
    case (Inl es)
    then show ?thesis unfolding p by (cases es) auto
  next
    case (Inr s1)
    then have "nav_kept (s0\<lparr>currentUrl := src\<rparr>) s1"
      unfolding body_def by (cases cd) (auto dest: process_new_kept process_cached_kept)
    with Inr show ?thesis unfolding p s0_def by auto
  qed
qed

lemma updateBreadcrumbs_fields:
  "errorMsg (updateBreadcrumbsForCrate u s) = errorMsg s"
  "rootCrateUrl (updateBreadcrumbsForCrate u s) = rootCrateUrl s"
  "currentUrl (updateBreadcrumbsForCrate u s) = currentUrl s"
  "inputUrl (updateBreadcrumbsForCrate u s) = inputUrl s"
  "baseUrl (updateBreadcrumbsForCrate u s) = baseUrl s"
  "isLoading (updateBreadcrumbsForCrate u s) = isLoading s"
  "historyStack (updateBreadcrumbsForCrate u s) =
     (if \<not> truthy_str u \<or> \<not> truthy_str (rootCrateUrl s) \<or> u = rootCrateUrl s then []
      else historyStack s)"
  by (simp_all add: updateBreadcrumbsForCrate_def)

text \<open>A call of \<^verbatim>\<open>processCrateData\<close> that records no error.\<close>

lemma processCrateData_success:
  assumes "errorMsg (processCrateData E json n src f s) = None"
  shows "currentUrl (processCrateData E json n src f s) = src"
    and "rootCrateUrl (processCrateData E json n src f s) =
           (if f \<and> truthy_str src then src else rootCrateUrl s)"
    and "historyStack (processCrateData E json n src f s) =
           (if \<not> truthy_str src \<or>
               \<not> truthy_str (rootCrateUrl (processCrateData E json n src f s)) \<or>
               src = rootCrateUrl (processCrateData E json n src f s)
            then [] else historyStack s)"
    and "inputUrl (processCrateData E json n src f s) = inputUrl s"
    and "baseUrl (processCrateData E json n src f s) = baseUrl s"
    and "isLoading (processCrateData E json n src f s) = isLoading s"
proof -
  from processCrateData_cases[of E json n src f s] assms
  obtain s1 where r: "processCrateData E json n src f s = updateBreadcrumbsForCrate src s1"
    and k: "nav_kept ((if f \<and> truthy_str src then s\<lparr>rootCrateUrl := src\<rparr> else s)\<lparr>currentUrl := src\<rparr>) s1"
    by auto
  from k show "currentUrl (processCrateData E json n src f s) = src"
    unfolding r by (simp add: updateBreadcrumbs_fields nav_kept_def)
  from k show "rootCrateUrl (processCrateData E json n src f s) =
           (if f \<and> truthy_str src then src else rootCrateUrl s)"
    unfolding r by (simp add: updateBreadcrumbs_fields nav_kept_def)
  from k show "historyStack (processCrateData E json n src f s) =
           (if \<not> truthy_str src \<or>
               \<not> truthy_str (rootCrateUrl (processCrateData E json n src f s)) \<or>
               src = rootCrateUrl (processCrateData E json n src f s)
            then [] else historyStack s)"
    unfolding r by (simp add: updateBreadcrumbs_fields nav_kept_def)
  from k show "inputUrl (processCrateData E json n src f s) = inputUrl s"
    unfolding r by (simp add: updateBreadcrumbs_fields nav_kept_def)
  from k show "baseUrl (processCrateData E json n src f s) = baseUrl s"
    unfolding r by (simp add: updateBreadcrumbs_fields nav_kept_def)
  from k show "isLoading (processCrateData E json n src f s) = isLoading s"
    unfolding r by (simp add: updateBreadcrumbs_fields nav_kept_def)
qed

subsection \<open>The outcomes of the navigation operations\<close>

lemma active_kept_tree: "active_kept s s' \<Longrightarrow> tree_of arraySort lc s' = tree_of arraySort lc s"
  by (simp add: active_kept_def tree_of_def)

lemma cached_json_cong: "crateCache s' = crateCache s \<Longrightarrow> cached_json s' k = cached_json s k"
  by (simp add: cached_json_def)

text \<open>\<^verbatim>\<open>loadFromUrl\<close> with a URL: it records an error, or it ends with
  \<^verbatim>\<open>processCrateData\<close> for that URL, called in a state with the history, the root locator
  and the input URL it started with, and no error message.\<close>

lemma load_indexed_cases:
  "(\<exists>e. errorMsg (load_indexed E cid n u f s) = Some e) \<or>
   (\<exists>j s0. load_indexed E cid n u f s = (processCrateData E j n (Some u) f s0)\<lparr>isLoading := False\<rparr> \<and>
      historyStack s0 = historyStack s \<and> rootCrateUrl s0 = rootCrateUrl s \<and>
      inputUrl s0 = inputUrl s \<and> errorMsg s0 = errorMsg s)"
proof (cases "indexing_metadata E (if ends_with_slash cid then butlast cid else cid)")
  case (Inl e)
  then show ?thesis by (simp add: load_indexed_def fetchMetadata_def Let_def)
next
  case (Inr j)
  then have "load_indexed E cid n u f s =
      (processCrateData E j n (Some u) f (s\<lparr>baseUrl := base_of E cid\<rparr>))\<lparr>isLoading := False\<rparr>"
    by (simp add: load_indexed_def fetchMetadata_def Let_def)
  then show ?thesis by (intro disjI2 exI[of _ j] exI[of _ "s\<lparr>baseUrl := base_of E cid\<rparr>"]) simp
qed

lemma loadFromUrl_cases:
  assumes "inputUrl s \<noteq> []"
  shows "(\<exists>e. errorMsg (loadFromUrl E s) = Some e) \<or>
   (\<exists>j n s0. (loadFromUrl E s = processCrateData E j n (Some (inputUrl s)) (rootCrateUrl s = None) s0 \<or>
              loadFromUrl E s =
                (processCrateData E j n (Some (inputUrl s)) (rootCrateUrl s = None) s0)\<lparr>isLoading := False\<rparr>) \<and>
      historyStack s0 = historyStack s \<and> rootCrateUrl s0 = rootCrateUrl s \<and>
      inputUrl s0 = inputUrl s \<and> errorMsg s0 = None)"
proof (cases "cached_json (s\<lparr>errorMsg := None\<rparr>) (inputUrl s)")
  case (Some j)
  with assms have "loadFromUrl E s = processCrateData E j ''Remote Crate (Cached)'' (Some (inputUrl s))
      (rootCrateUrl s = None) (s\<lparr>errorMsg := None, baseUrl := base_of E (inputUrl s)\<rparr>)"
    by (simp add: loadFromUrl_def Let_def)
  then show ?thesis
    by (intro disjI2 exI[of _ j] exI[of _ "''Remote Crate (Cached)''"]
        exI[of _ "s\<lparr>errorMsg := None, baseUrl := base_of E (inputUrl s)\<rparr>"]) simp
next
  case None
  show ?thesis
  proof (cases "isStateless E")
    case True
    show ?thesis
    proof (cases "fetchCrateFromUrl (corsProxyUrl E) (fetch_url E) (inputUrl s)")
      case (Inl e)
      with assms None True show ?thesis by (simp add: loadFromUrl_def Let_def)
    next
      case (Inr j)
      with assms None True have "loadFromUrl E s =
        (processCrateData E j ''Remote Crate'' (Some (inputUrl s)) (rootCrateUrl s = None)
          (s\<lparr>errorMsg := None, isLoading := True, fullCrateJson := Some j,
             currentUrl := Some (inputUrl s), baseUrl := base_of E (inputUrl s)\<rparr>))\<lparr>isLoading := False\<rparr>"
        by (simp add: loadFromUrl_def Let_def)
      then show ?thesis
        by (intro disjI2 exI[of _ j] exI[of _ "''Remote Crate''"]
            exI[of _ "s\<lparr>errorMsg := None, isLoading := True, fullCrateJson := Some j,
             currentUrl := Some (inputUrl s), baseUrl := base_of E (inputUrl s)\<rparr>"]) simp
    qed
  next
    case False
    let ?s2 = "s\<lparr>errorMsg := None, isLoading := True\<rparr>"
    show ?thesis
    proof (cases "indexing_url E (inputUrl s)")
      case (IndexFailed e)
      with assms None False show ?thesis by (simp add: loadFromUrl_def Let_def)
    next
      case (AlreadyIndexed cid)
      with assms None False have l: "loadFromUrl E s =
          load_indexed E cid ''Remote Crate (Indexed)'' (inputUrl s) (rootCrateUrl s = None) ?s2"
        by (simp add: loadFromUrl_def Let_def)
      from load_indexed_cases[of E cid "''Remote Crate (Indexed)''" "inputUrl s" "rootCrateUrl s = None" ?s2]
      show ?thesis unfolding l by (elim disjE exE conjE) (simp, force)
    next
      case (Indexed cid)
      with assms None False have l: "loadFromUrl E s =
          load_indexed E cid ''Remote Crate'' (inputUrl s) (rootCrateUrl s = None) ?s2"
        by (simp add: loadFromUrl_def Let_def)
      from load_indexed_cases[of E cid "''Remote Crate''" "inputUrl s" "rootCrateUrl s = None" ?s2]
      show ?thesis unfolding l by (elim disjE exE conjE) (simp, force)
    qed
  qed
qed

lemma loadFromUrl_success:
  assumes "inputUrl s \<noteq> []" and "errorMsg (loadFromUrl E s) = None"
  shows "currentUrl (loadFromUrl E s) = Some (inputUrl s)"
    and "rootCrateUrl (loadFromUrl E s) =
           (if rootCrateUrl s = None then Some (inputUrl s) else rootCrateUrl s)"
    and "historyStack (loadFromUrl E s) =
           (if \<not> truthy_str (rootCrateUrl (loadFromUrl E s)) \<or>
               Some (inputUrl s) = rootCrateUrl (loadFromUrl E s)
            then [] else historyStack s)"
proof -
  from loadFromUrl_cases[OF assms(1), of E] assms(2)
  obtain j n s0 where r: "loadFromUrl E s = processCrateData E j n (Some (inputUrl s)) (rootCrateUrl s = None) s0 \<or>
              loadFromUrl E s =
                (processCrateData E j n (Some (inputUrl s)) (rootCrateUrl s = None) s0)\<lparr>isLoading := False\<rparr>"
    and k: "historyStack s0 = historyStack s" "rootCrateUrl s0 = rootCrateUrl s"
    by auto
  let ?p = "processCrateData E j n (Some (inputUrl s)) (rootCrateUrl s = None) s0"
  from r assms(2) have e: "errorMsg ?p = None" by auto
  have t: "truthy_str (Some (inputUrl s))" using assms(1) by (simp add: truthy_str_def)
  from r have f: "currentUrl (loadFromUrl E s) = currentUrl ?p"
    "rootCrateUrl (loadFromUrl E s) = rootCrateUrl ?p"
    "historyStack (loadFromUrl E s) = historyStack ?p" by auto
  from processCrateData_success(1)[OF e] show "currentUrl (loadFromUrl E s) = Some (inputUrl s)"
    unfolding f .
  from processCrateData_success(2)[OF e] t k
  show "rootCrateUrl (loadFromUrl E s) =
           (if rootCrateUrl s = None then Some (inputUrl s) else rootCrateUrl s)"
    unfolding f by simp
  from processCrateData_success(3)[OF e] t k
  show "historyStack (loadFromUrl E s) =
           (if \<not> truthy_str (rootCrateUrl (loadFromUrl E s)) \<or>
               Some (inputUrl s) = rootCrateUrl (loadFromUrl E s)
            then [] else historyStack s)"
    unfolding f by simp
qed

lemma ensure_slash_nonempty: "ensure_slash x \<noteq> []"
  by (simp add: ensure_slash_def ends_with_slash_def)

lemma locator_nonempty: "baseUrl s \<noteq> [] \<Longrightarrow> locator s \<noteq> []"
  by (simp add: locator_def split: option.splits)

lemma fetchMetadata_Inr:
  "fetchMetadata E cid n src f s = Inr s' \<Longrightarrow> \<exists>j. s' = processCrateData E j n src f s"
  by (cases "indexing_metadata E (if ends_with_slash cid then butlast cid else cid)")
    (auto simp: fetchMetadata_def Let_def)

lemma handleSubcrateOpen_unfold:
  assumes "baseUrl s \<noteq> []"
  shows "handleSubcrateOpen E sub s =
     open_resolved E (fst (resolve_subcrate E sub (baseUrl s))) (snd (resolve_subcrate E sub (baseUrl s)))
       (s\<lparr>historyStack := historyStack s @ [\<lparr>h_name = currentCrateName s, h_url = Some (locator s)\<rparr>],
          errorMsg := None\<rparr>)"
  using assms by (simp add: handleSubcrateOpen_def Let_def locator_def)

lemma open_resolved_cases:
  "(\<exists>e. errorMsg (open_resolved E sb fn s2) = Some e) \<or>
   (\<exists>j n s0. (open_resolved E sb fn s2 =
                 processCrateData E j n (Some (ensure_slash sb)) False s0 \<or>
              open_resolved E sb fn s2 =
                 (processCrateData E j n (Some (ensure_slash sb)) False s0)\<lparr>isLoading := False\<rparr>) \<and>
      historyStack s0 = historyStack s2 \<and> rootCrateUrl s0 = rootCrateUrl s2 \<and>
      errorMsg s0 = errorMsg s2)"
proof -
  define key where "key = ensure_slash sb"
  define upd where "upd = (\<lambda>t :: app. t\<lparr>baseUrl := key, inputUrl := sb, currentUrl := Some key\<rparr>)"
  define s3 where "s3 = s2\<lparr>isLoading := True\<rparr>"
  have h: "open_resolved E sb fn s2 =
    (case (if isStateless E then cached_json s2 key else None) of
       Some json \<Rightarrow> processCrateData E json ''Subcrate (Cached)'' (Some key) False (upd s2)
     | None \<Rightarrow>
        (if isStateless E then
           (case fetchCrateFromUrl (corsProxyUrl E) (fetch_url E) (subcrate_fetchUrl sb fn) of
              Inl e \<Rightarrow> s3\<lparr>errorMsg := Some (''Error loading subcrate: '' @ message e), isLoading := False\<rparr>
            | Inr json \<Rightarrow> (processCrateData E json ''Subcrate'' (Some key) False (upd s3))\<lparr>isLoading := False\<rparr>)
         else
           (case fetchMetadata E (if ends_with_slash sb then butlast sb else sb)
                   ''Subcrate'' (Some key) False (upd s3) of
              Inl e \<Rightarrow> (upd s3)\<lparr>errorMsg := Some (''Error loading subcrate: '' @ message e), isLoading := False\<rparr>
            | Inr s5 \<Rightarrow> s5\<lparr>isLoading := False\<rparr>)))"
    unfolding open_resolved_def Let_def key_def s3_def upd_def by (rule refl)
  have f2: "historyStack (upd s2) = historyStack s2" "rootCrateUrl (upd s2) = rootCrateUrl s2"
    "errorMsg (upd s2) = errorMsg s2"
    by (simp_all add: upd_def)
  have f3: "historyStack (upd s3) = historyStack s2" "rootCrateUrl (upd s3) = rootCrateUrl s2"
    "errorMsg (upd s3) = errorMsg s2"
    by (simp_all add: upd_def s3_def)
  show ?thesis
  proof (cases "if isStateless E then cached_json s2 key else None")
    case (Some j)
    then have "open_resolved E sb fn s2 =
        processCrateData E j ''Subcrate (Cached)'' (Some key) False (upd s2)"
      unfolding h by simp
    with f2 show ?thesis unfolding key_def by blast
  next
    case None
    show ?thesis
    proof (cases "isStateless E")
      case True
      show ?thesis
      proof (cases "fetchCrateFromUrl (corsProxyUrl E) (fetch_url E) (subcrate_fetchUrl sb fn)")
        case (Inl e)
        with None True show ?thesis unfolding h by simp
      next
        case (Inr j)
        with None True have "open_resolved E sb fn s2 =
          (processCrateData E j ''Subcrate'' (Some key) False (upd s3))\<lparr>isLoading := False\<rparr>"
          unfolding h by simp
        with f3 show ?thesis unfolding key_def by blast
      qed
    next
      case False
      show ?thesis
      proof (cases "fetchMetadata E (if ends_with_slash sb then butlast sb else sb)
                   ''Subcrate'' (Some key) False (upd s3)")
        case (Inl e)
        with None False show ?thesis unfolding h by simp
      next
        case (Inr s5)
        with fetchMetadata_Inr[OF Inr] obtain j where
          "s5 = processCrateData E j ''Subcrate'' (Some key) False (upd s3)" by blast
        with Inr None False have "open_resolved E sb fn s2 =
          (processCrateData E j ''Subcrate'' (Some key) False (upd s3))\<lparr>isLoading := False\<rparr>"
          unfolding h by simp
        with f3 show ?thesis unfolding key_def by blast
      qed
    qed
  qed
qed

lemma handleSubcrateOpen_cases:
  assumes "baseUrl s \<noteq> []"
  shows "(\<exists>e. errorMsg (handleSubcrateOpen E sub s) = Some e) \<or>
   (\<exists>j n s0. (handleSubcrateOpen E sub s =
                 processCrateData E j n (Some (subcrate_target E sub s)) False s0 \<or>
              handleSubcrateOpen E sub s =
                 (processCrateData E j n (Some (subcrate_target E sub s)) False s0)\<lparr>isLoading := False\<rparr>) \<and>
      historyStack s0 = historyStack s @ [\<lparr>h_name = currentCrateName s, h_url = Some (locator s)\<rparr>] \<and>
      rootCrateUrl s0 = rootCrateUrl s \<and> errorMsg s0 = None)"
  using open_resolved_cases[of E "fst (resolve_subcrate E sub (baseUrl s))"
      "snd (resolve_subcrate E sub (baseUrl s))"
      "s\<lparr>historyStack := historyStack s @ [\<lparr>h_name = currentCrateName s, h_url = Some (locator s)\<rparr>],
          errorMsg := None\<rparr>"]
  unfolding handleSubcrateOpen_unfold[OF assms] subcrate_target_def by simp

lemma handleSubcrateOpen_success:
  assumes "baseUrl s \<noteq> []" and "errorMsg (handleSubcrateOpen E sub s) = None"
  shows "currentUrl (handleSubcrateOpen E sub s) = Some (subcrate_target E sub s)"
    and "rootCrateUrl (handleSubcrateOpen E sub s) = rootCrateUrl s"
    and "historyStack (handleSubcrateOpen E sub s) =
           (if \<not> truthy_str (rootCrateUrl s) \<or> Some (subcrate_target E sub s) = rootCrateUrl s
            then []
            else historyStack s @ [\<lparr>h_name = currentCrateName s, h_url = Some (locator s)\<rparr>])"
proof -
  let ?t = "subcrate_target E sub s"
  from handleSubcrateOpen_cases[OF assms(1), of E sub] assms(2)
  obtain j n s0 where r: "handleSubcrateOpen E sub s = processCrateData E j n (Some ?t) False s0 \<or>
      handleSubcrateOpen E sub s = (processCrateData E j n (Some ?t) False s0)\<lparr>isLoading := False\<rparr>"
    and k: "historyStack s0 = historyStack s @ [\<lparr>h_name = currentCrateName s, h_url = Some (locator s)\<rparr>]"
       "rootCrateUrl s0 = rootCrateUrl s"
    by auto
  let ?p = "processCrateData E j n (Some ?t) False s0"
  from r assms(2) have e: "errorMsg ?p = None" by auto
  have t: "truthy_str (Some ?t)"
    by (simp add: truthy_str_def subcrate_target_def ensure_slash_nonempty)
  from r have f: "currentUrl (handleSubcrateOpen E sub s) = currentUrl ?p"
    "rootCrateUrl (handleSubcrateOpen E sub s) = rootCrateUrl ?p"
    "historyStack (handleSubcrateOpen E sub s) = historyStack ?p" by auto
  from processCrateData_success(1)[OF e] show "currentUrl (handleSubcrateOpen E sub s) = Some ?t"
    unfolding f .
  from processCrateData_success(2)[OF e] k
  show rt: "rootCrateUrl (handleSubcrateOpen E sub s) = rootCrateUrl s"
    unfolding f by simp
  from processCrateData_success(3)[OF e] t k rt[unfolded f]
  show "historyStack (handleSubcrateOpen E sub s) =
           (if \<not> truthy_str (rootCrateUrl s) \<or> Some ?t = rootCrateUrl s
            then []
            else historyStack s @ [\<lparr>h_name = currentCrateName s, h_url = Some (locator s)\<rparr>])"
    unfolding f by simp
qed

text \<open>In stateless mode, a failed fetch leaves the active crate as it was.\<close>

lemma loadFromUrl_fetch_fails:
  assumes "isStateless E" and "inputUrl s \<noteq> []" and "cached_json s (inputUrl s) = None"
    and "fetchCrateFromUrl (corsProxyUrl E) (fetch_url E) (inputUrl s) = Inl e"
  shows "loadFromUrl E s =
     s\<lparr>errorMsg := Some (''Error loading URL: '' @ message e), isLoading := False\<rparr>"
proof -
  from assms(3) have "cached_json (s\<lparr>errorMsg := None\<rparr>) (inputUrl s) = None"
    by (simp add: cached_json_def)
  with assms show ?thesis by (simp add: loadFromUrl_def Let_def)
qed

lemma handleSubcrateOpen_fetch_fails:
  assumes "isStateless E" and "baseUrl s \<noteq> []"
    and "cached_json s (subcrate_target E sub s) = None"
    and "fetchCrateFromUrl (corsProxyUrl E) (fetch_url E)
           (subcrate_fetchUrl (fst (resolve_subcrate E sub (baseUrl s)))
              (snd (resolve_subcrate E sub (baseUrl s)))) = Inl e"
  shows "handleSubcrateOpen E sub s =
     s\<lparr>historyStack := historyStack s @ [\<lparr>h_name = currentCrateName s, h_url = Some (locator s)\<rparr>],
       errorMsg := Some (''Error loading subcrate: '' @ message e), isLoading := False\<rparr>"
proof -
  let ?s2 = "s\<lparr>historyStack := historyStack s @
      [\<lparr>h_name = currentCrateName s, h_url = Some (locator s)\<rparr>], errorMsg := None\<rparr>"
  from assms(3) have "cached_json ?s2 (ensure_slash (fst (resolve_subcrate E sub (baseUrl s)))) = None"
    by (simp add: cached_json_def subcrate_target_def)
  with assms(1,4) show ?thesis
    unfolding handleSubcrateOpen_unfold[OF assms(2)] open_resolved_def Let_def by simp
qed

subsection \<open>The example session\<close>

lemma demo_doc_facts:
  "member (demo_doc n) ''@graph'' = JArr [demo_entity n]"
  "\<not> is_nullish (demo_doc n)"
  "truthy (demo_doc n)"
  "normalizeDescriptorName (demo_doc n) = Inr (demo_doc n)"
  by (simp_all add: demo_doc_def demo_entity_def normalizeDescriptorName_def is_descriptor_def)

lemma demo_entity_facts:
  "\<not> is_nullish (demo_entity n)"
  "member (demo_entity n) ''@id'' = JStr ''./''"
  "member (demo_entity n) ''name'' = JStr n"
  "truthy (demo_entity n)"
  by (simp_all add: demo_entity_def)

lemma demo_content:
  "extractSearchableContent (demo_entity ''Root'') = ''@id ./ name Root''"
  "extractSearchableContent (demo_entity ''Sub'') = ''@id ./ name Sub''"
  by (simp_all add: demo_entity_def extractSearchableContent_def flattenValue.simps trim_def
      is_space_def)

lemma demo_fetch_docs:
  "fetchCrateFromUrl ''https://cors.aruna-engine.org/'' demo_fetch ''https://h/'' =
     Inr (demo_doc ''Root'')"
  "fetchCrateFromUrl ''https://cors.aruna-engine.org/'' demo_fetch
     ''https://h/a/ro-crate-metadata.json'' = Inr (demo_doc ''Sub'')"
  unfolding fetch_iff validate_iff
  by (simp_all add: proxied_def demo_fetch_def serving_def demo_doc_def demo_entity_def
      get_prop_opt_def)

lemma demo_fetch_missing:
  "fetchCrateFromUrl ''https://cors.aruna-engine.org/'' demo_fetch
     ''https://h/b/ro-crate-metadata.json'' =
     Inl (Error ''Error fetching RO-Crate from URL: Failed to fetch crate: 404 Not Found'')"
  by (simp add: fetchCrateFromUrl_def demo_fetch_def digit_char_def)

lemma demo_hints_eval:
  "buildLinkedDataHints (\<lambda>d. Inr []) (demo_doc n) [] = Inr demo_hints"
  by (simp add: buildLinkedDataHints_def demo_doc_def demo_entity_def props_of_def
      expandProperty_def probe_def Let_def values_of_def fromEntries_def demo_hints_def)

lemma demo_env_fields:
  "isStateless (demo_env b) = b"
  "corsProxyUrl (demo_env b) = ''https://cors.aruna-engine.org/''"
  "fetch_url (demo_env b) = demo_fetch"
  "jsonld_expand (demo_env b) = (\<lambda>d. Inr [])"
  "new_ROCrate (demo_env b) = (\<lambda>j. Inr \<lparr>rootDataset = JUndefined\<rparr>)"
  "new_URL (demo_env b) = demo_new_URL"
  "set_pathname (demo_env b) = demo_set_pathname"
  "JSON_parse (demo_env b) = demo_parse"
  "indexing_url (demo_env b) = (\<lambda>u. IndexFailed (Error ''Failed to fetch''))"
  "indexing_metadata (demo_env b) = (\<lambda>i. Inl (Error ''Failed to fetch''))"
  by (simp_all add: demo_env_def)

lemmas demo_eval =
  demo_env_fields cached_json_def Let_def base_of_def demo_new_URL_def demo_set_pathname_def
  ensure_slash_def ends_with_slash_def processCrateData_def truthy_str_def process_new_def
  process_cached_def demo_doc_facts demo_entity_facts demo_content demo_fetch_docs
  update_search_index_def buildSearchIndex_def addToIndex_def expand_step_def demo_hints_eval
  name_and_cache_def getSafeName_def updateSelectedEntityView_def crate_rootDataset_def
  updateBreadcrumbsForCrate_def is_root_id_def demo_cached_def demo_item_def demo_state_def

lemma demo_at_root_eq:
  "demo_at_root =
     demo_state ''https://h/'' ''Root'' [] [(''https://h/'', demo_cached ''Root'')]
       [demo_item ''https://h/'' ''Root'']"
  unfolding demo_at_root_def
  by (simp add: loadFromUrl_def initial_app_def demo_eval)

lemma demo_resolve_a:
  "resolve_subcrate (demo_env s) ''a/'' ''https://h/'' = (''https://h/a/'', ''ro-crate-metadata.json'')"
  by (simp add: resolve_subcrate_def demo_env_fields demo_new_URL_def metadata_match_def
      last_segment_def ends_with_def metadata_suffix_def ensure_slash_def ends_with_slash_def)

lemma demo_resolve_b:
  "resolve_subcrate (demo_env s) ''b/'' ''https://h/'' = (''https://h/b/'', ''ro-crate-metadata.json'')"
  by (simp add: resolve_subcrate_def demo_env_fields demo_new_URL_def metadata_match_def
      last_segment_def ends_with_def metadata_suffix_def ensure_slash_def ends_with_slash_def)

lemma demo_resolve_up:
  "resolve_subcrate (demo_env s) ''../'' ''https://h/a/'' = (''https://h/'', ''ro-crate-metadata.json'')"
  by (simp add: resolve_subcrate_def demo_env_fields demo_new_URL_def metadata_match_def
      last_segment_def ends_with_def metadata_suffix_def ensure_slash_def ends_with_slash_def)

lemma demo_fetchUrl:
  "subcrate_fetchUrl ''https://h/a/'' ''ro-crate-metadata.json'' = ''https://h/a/ro-crate-metadata.json''"
  "subcrate_fetchUrl ''https://h/b/'' ''ro-crate-metadata.json'' = ''https://h/b/ro-crate-metadata.json''"
  by (simp_all add: subcrate_fetchUrl_def ends_with_def metadata_suffix_def ends_with_slash_def
      to_lower_def)

lemma demo_at_sub_eq:
  "demo_at_sub =
     demo_state ''https://h/a/'' ''Sub'' [\<lparr>h_name = JStr ''Root'', h_url = Some ''https://h/''\<rparr>]
       [(''https://h/a/'', demo_cached ''Sub''), (''https://h/'', demo_cached ''Root'')]
       [demo_item ''https://h/'' ''Root'', demo_item ''https://h/a/'' ''Sub'']"
  unfolding demo_at_sub_def demo_at_root_eq
  by (simp add: handleSubcrateOpen_def open_resolved_def demo_resolve_a demo_fetchUrl demo_eval)

lemma demo_back_eq:
  "goBack (demo_env True) demo_at_sub =
     demo_state ''https://h/'' ''Root'' []
       [(''https://h/a/'', demo_cached ''Sub''), (''https://h/'', demo_cached ''Root'')]
       [demo_item ''https://h/a/'' ''Sub'', demo_item ''https://h/'' ''Root'']"
  unfolding demo_at_sub_eq
  by (simp add: goBack_def loadFromUrl_def demo_eval)

lemma demo_breadcrumb_eq:
  "goToBreadcrumb (demo_env True) 0 demo_at_sub =
     demo_state ''https://h/'' ''Root'' []
       [(''https://h/a/'', demo_cached ''Sub''), (''https://h/'', demo_cached ''Root'')]
       [demo_item ''https://h/a/'' ''Sub'', demo_item ''https://h/'' ''Root'']"
  unfolding demo_at_sub_eq
  by (simp add: goToBreadcrumb_def loadFromUrl_def demo_eval)

lemma demo_up_eq:
  "handleSubcrateOpen (demo_env True) ''../'' demo_at_sub =
     demo_state ''https://h/'' ''Root'' []
       [(''https://h/a/'', demo_cached ''Sub''), (''https://h/'', demo_cached ''Root'')]
       [demo_item ''https://h/a/'' ''Sub'', demo_item ''https://h/'' ''Root'']"
  unfolding demo_at_sub_eq
  by (simp add: handleSubcrateOpen_def open_resolved_def demo_resolve_up demo_eval)

subsection \<open>Navigation: the claims\<close>

lemma goBack_unfold:
  assumes "historyStack s \<noteq> []" and "h_url (last (historyStack s)) = Some u" and "u \<noteq> []"
  shows "goBack E s = loadFromUrl E (s\<lparr>historyStack := butlast (historyStack s), inputUrl := u\<rparr>)"
  using assms by (simp add: goBack_def Let_def truthy_str_def)

lemma goToBreadcrumb_unfold:
  assumes "i < length (historyStack s)" and "h_url (historyStack s ! i) = Some u" and "u \<noteq> []"
  shows "goToBreadcrumb E i s =
    loadFromUrl E (s\<lparr>historyStack := take i (historyStack s), inputUrl := u\<rparr>)"
  using assms by (simp add: goToBreadcrumb_def Let_def truthy_str_def)

lemma load_root_clears:
  assumes "inputUrl s \<noteq> []" and "errorMsg (loadFromUrl E s) = None"
    and "rootCrateUrl (loadFromUrl E s) = Some (inputUrl s)"
  shows "historyStack (loadFromUrl E s) = []"
  using loadFromUrl_success(3)[OF assms(1,2)] assms(3) by simp

lemma load_fails_kept:
  assumes "isStateless E" and "inputUrl s \<noteq> []" and "cached_json s (inputUrl s) = None"
    and "fetchCrateFromUrl (corsProxyUrl E) (fetch_url E) (inputUrl s) = Inl e"
  shows "allEntities (loadFromUrl E s) = allEntities s"
    and "crate (loadFromUrl E s) = crate s"
    and "currentCrateName (loadFromUrl E s) = currentCrateName s"
    and "linkedDataHints (loadFromUrl E s) = linkedDataHints s"
    and "expandedCrate (loadFromUrl E s) = expandedCrate s"
    and "currentUrl (loadFromUrl E s) = currentUrl s"
    and "baseUrl (loadFromUrl E s) = baseUrl s"
    and "crateCache (loadFromUrl E s) = crateCache s"
    and "rootCrateUrl (loadFromUrl E s) = rootCrateUrl s"
    and "search (loadFromUrl E s) = search s"
    and "errorMsg (loadFromUrl E s) = Some (''Error loading URL: '' @ message e)"
  unfolding loadFromUrl_fetch_fails[OF assms] by simp_all

text \<open>
  C3, as stated: whenever the fetch or the parse of the target fails, the active state is
  what it was before the operation. This fails where the code writes the new location
  before it knows the outcome. With the indexing service (the stateful mode),
  \<^verbatim>\<open>handleSubcrateOpen\<close> sets \<^verbatim>\<open>baseUrl\<close>, \<^verbatim>\<open>inputUrl\<close> and \<^verbatim>\<open>currentUrl\<close> to the nested crate and
  then asks for its metadata: in the example the service does not answer, the error is
  reported, the entities are still those of the root crate, and the current locator and the
  base location are those of the nested crate. And \<^verbatim>\<open>loadFromPastedJson\<close> empties \<^verbatim>\<open>baseUrl\<close>
  before it parses the text: for the unfinished text \<^verbatim>\<open>{\<close> the error is reported and the base
  location is lost.
\<close>

theorem failed_load_overwrites_location:
  "currentUrl demo_at_root = Some ''https://h/'' \<and> baseUrl demo_at_root = ''https://h/'' \<and>
   errorMsg (handleSubcrateOpen (demo_env False) ''a/'' demo_at_root) =
     Some ''Error loading subcrate: Metadata fetch failed: Failed to fetch'' \<and>
   allEntities (handleSubcrateOpen (demo_env False) ''a/'' demo_at_root) = allEntities demo_at_root \<and>
   currentUrl (handleSubcrateOpen (demo_env False) ''a/'' demo_at_root) = Some ''https://h/a/'' \<and>
   baseUrl (handleSubcrateOpen (demo_env False) ''a/'' demo_at_root) = ''https://h/a/'' \<and>
   errorMsg (loadFromPastedJson (demo_env True) ''{'' demo_at_root) =
     Some ''Paste error: Unexpected end of JSON input'' \<and>
   allEntities (loadFromPastedJson (demo_env True) ''{'' demo_at_root) = allEntities demo_at_root \<and>
   baseUrl (loadFromPastedJson (demo_env True) ''{'' demo_at_root) = []"
  unfolding demo_at_root_eq
  by (simp add: handleSubcrateOpen_def open_resolved_def demo_resolve_a fetchMetadata_def
      loadFromPastedJson_def trim_def is_space_def demo_parse_def demo_eval)

text \<open>
  C3, amended: in the stateless mode (the crate is fetched directly), when the target is
  not in the cache and the fetch of the target fails, each of the four operations
  (\<^verbatim>\<open>loadFromUrl\<close>, \<^verbatim>\<open>handleSubcrateOpen\<close>, \<^verbatim>\<open>goToBreadcrumb\<close>, \<^verbatim>\<open>goBack\<close>) reports the error and keeps
  the active crate: the entities, the library's crate and the crate name (hence the tree),
  the link hints and expanded nodes, the current locator, the base location, the cache,
  the root locator and the search index are those of the state before.
\<close>

theorem failed_fetch_keeps_active_crate:
  assumes "isStateless E"
  shows
  "(inputUrl s \<noteq> [] \<and> cached_json s (inputUrl s) = None \<and>
    fetchCrateFromUrl (corsProxyUrl E) (fetch_url E) (inputUrl s) = Inl e \<longrightarrow>
      active_kept s (loadFromUrl E s) \<and> tree_of arraySort lc (loadFromUrl E s) = tree_of arraySort lc s \<and>
      errorMsg (loadFromUrl E s) = Some (''Error loading URL: '' @ message e)) \<and>
   (baseUrl s \<noteq> [] \<and> cached_json s (subcrate_target E sub s) = None \<and>
    fetchCrateFromUrl (corsProxyUrl E) (fetch_url E)
      (subcrate_fetchUrl (fst (resolve_subcrate E sub (baseUrl s)))
         (snd (resolve_subcrate E sub (baseUrl s)))) = Inl e \<longrightarrow>
      active_kept s (handleSubcrateOpen E sub s) \<and>
      tree_of arraySort lc (handleSubcrateOpen E sub s) = tree_of arraySort lc s \<and>
      errorMsg (handleSubcrateOpen E sub s) = Some (''Error loading subcrate: '' @ message e)) \<and>
   (i < length (historyStack s) \<and> h_url (historyStack s ! i) = Some u \<and> u \<noteq> [] \<and>
    cached_json s u = None \<and> fetchCrateFromUrl (corsProxyUrl E) (fetch_url E) u = Inl e \<longrightarrow>
      active_kept s (goToBreadcrumb E i s) \<and> tree_of arraySort lc (goToBreadcrumb E i s) = tree_of arraySort lc s \<and>
      errorMsg (goToBreadcrumb E i s) = Some (''Error loading URL: '' @ message e)) \<and>
   (historyStack s \<noteq> [] \<and> h_url (last (historyStack s)) = Some u \<and> u \<noteq> [] \<and>
    cached_json s u = None \<and> fetchCrateFromUrl (corsProxyUrl E) (fetch_url E) u = Inl e \<longrightarrow>
      active_kept s (goBack E s) \<and> tree_of arraySort lc (goBack E s) = tree_of arraySort lc s \<and>
      errorMsg (goBack E s) = Some (''Error loading URL: '' @ message e))"
proof (intro conjI impI)
  assume h: "inputUrl s \<noteq> [] \<and> cached_json s (inputUrl s) = None \<and>
    fetchCrateFromUrl (corsProxyUrl E) (fetch_url E) (inputUrl s) = Inl e"
  then have k: "active_kept s (loadFromUrl E s)"
    using load_fails_kept[OF assms, of s e] by (simp add: active_kept_def)
  show "active_kept s (loadFromUrl E s)" by (rule k)
  show "tree_of arraySort lc (loadFromUrl E s) = tree_of arraySort lc s" by (rule active_kept_tree[OF k])
  show "errorMsg (loadFromUrl E s) = Some (''Error loading URL: '' @ message e)"
    using h load_fails_kept(11)[OF assms, of s e] by simp
next
  assume h: "baseUrl s \<noteq> [] \<and> cached_json s (subcrate_target E sub s) = None \<and>
    fetchCrateFromUrl (corsProxyUrl E) (fetch_url E)
      (subcrate_fetchUrl (fst (resolve_subcrate E sub (baseUrl s)))
         (snd (resolve_subcrate E sub (baseUrl s)))) = Inl e"
  then have r: "handleSubcrateOpen E sub s =
     s\<lparr>historyStack := historyStack s @ [\<lparr>h_name = currentCrateName s, h_url = Some (locator s)\<rparr>],
       errorMsg := Some (''Error loading subcrate: '' @ message e), isLoading := False\<rparr>"
    using handleSubcrateOpen_fetch_fails[OF assms, of s sub e] by simp
  have k: "active_kept s (handleSubcrateOpen E sub s)"
    unfolding r by (simp add: active_kept_def)
  show "active_kept s (handleSubcrateOpen E sub s)" by (rule k)
  show "tree_of arraySort lc (handleSubcrateOpen E sub s) = tree_of arraySort lc s" by (rule active_kept_tree[OF k])
  show "errorMsg (handleSubcrateOpen E sub s) = Some (''Error loading subcrate: '' @ message e)"
    unfolding r by simp
next
  assume h: "i < length (historyStack s) \<and> h_url (historyStack s ! i) = Some u \<and> u \<noteq> [] \<and>
    cached_json s u = None \<and> fetchCrateFromUrl (corsProxyUrl E) (fetch_url E) u = Inl e"
  let ?s = "s\<lparr>historyStack := take i (historyStack s), inputUrl := u\<rparr>"
  from h have r: "goToBreadcrumb E i s = loadFromUrl E ?s"
    using goToBreadcrumb_unfold[of i s u E] by simp
  from h have c: "cached_json ?s (inputUrl ?s) = None" by (simp add: cached_json_def)
  from h have f: "fetchCrateFromUrl (corsProxyUrl E) (fetch_url E) (inputUrl ?s) = Inl e" by simp
  from h have n: "inputUrl ?s \<noteq> []" by simp
  have k: "active_kept s (goToBreadcrumb E i s)"
    unfolding r using load_fails_kept[OF assms n c f] by (simp add: active_kept_def)
  show "active_kept s (goToBreadcrumb E i s)" by (rule k)
  show "tree_of arraySort lc (goToBreadcrumb E i s) = tree_of arraySort lc s" by (rule active_kept_tree[OF k])
  show "errorMsg (goToBreadcrumb E i s) = Some (''Error loading URL: '' @ message e)"
    unfolding r by (rule load_fails_kept(11)[OF assms n c f])
next
  assume h: "historyStack s \<noteq> [] \<and> h_url (last (historyStack s)) = Some u \<and> u \<noteq> [] \<and>
    cached_json s u = None \<and> fetchCrateFromUrl (corsProxyUrl E) (fetch_url E) u = Inl e"
  let ?s = "s\<lparr>historyStack := butlast (historyStack s), inputUrl := u\<rparr>"
  from h have r: "goBack E s = loadFromUrl E ?s"
    using goBack_unfold[of s u E] by simp
  from h have c: "cached_json ?s (inputUrl ?s) = None" by (simp add: cached_json_def)
  from h have f: "fetchCrateFromUrl (corsProxyUrl E) (fetch_url E) (inputUrl ?s) = Inl e" by simp
  from h have n: "inputUrl ?s \<noteq> []" by simp
  have k: "active_kept s (goBack E s)"
    unfolding r using load_fails_kept[OF assms n c f] by (simp add: active_kept_def)
  show "active_kept s (goBack E s)" by (rule k)
  show "tree_of arraySort lc (goBack E s) = tree_of arraySort lc s" by (rule active_kept_tree[OF k])
  show "errorMsg (goBack E s) = Some (''Error loading URL: '' @ message e)"
    unfolding r by (rule load_fails_kept(11)[OF assms n c f])
qed

text \<open>The amended claim on the example server: the crate at \<^verbatim>\<open>https://h/b/\<close> does not exist.\<close>

theorem failed_fetch_keeps_active_crate_witness:
  "isStateless (demo_env True) \<and>
   active_kept (demo_at_root\<lparr>inputUrl := ''https://h/b/ro-crate-metadata.json''\<rparr>)
     (loadFromUrl (demo_env True) (demo_at_root\<lparr>inputUrl := ''https://h/b/ro-crate-metadata.json''\<rparr>)) \<and>
   active_kept demo_at_root (handleSubcrateOpen (demo_env True) ''b/'' demo_at_root) \<and>
   errorMsg (handleSubcrateOpen (demo_env True) ''b/'' demo_at_root) =
     Some ''Error loading subcrate: Error fetching RO-Crate from URL: Failed to fetch crate: 404 Not Found'' \<and>
   active_kept
     (demo_at_sub\<lparr>historyStack := [\<lparr>h_name = JStr ''B'', h_url = Some ''https://h/b/ro-crate-metadata.json''\<rparr>]\<rparr>)
     (goToBreadcrumb (demo_env True) 0
       (demo_at_sub\<lparr>historyStack := [\<lparr>h_name = JStr ''B'', h_url = Some ''https://h/b/ro-crate-metadata.json''\<rparr>]\<rparr>)) \<and>
   active_kept
     (demo_at_sub\<lparr>historyStack := [\<lparr>h_name = JStr ''B'', h_url = Some ''https://h/b/ro-crate-metadata.json''\<rparr>]\<rparr>)
     (goBack (demo_env True)
       (demo_at_sub\<lparr>historyStack := [\<lparr>h_name = JStr ''B'', h_url = Some ''https://h/b/ro-crate-metadata.json''\<rparr>]\<rparr>))"
  using
    failed_fetch_keeps_active_crate[of "demo_env True"
      "demo_at_root\<lparr>inputUrl := ''https://h/b/ro-crate-metadata.json''\<rparr>"
      "Error ''Error fetching RO-Crate from URL: Failed to fetch crate: 404 Not Found''"
      "insertion_sort" "\<lambda>a b. 0" Nil 0 Nil]
    failed_fetch_keeps_active_crate[of "demo_env True" demo_at_root
      "Error ''Error fetching RO-Crate from URL: Failed to fetch crate: 404 Not Found''"
      "insertion_sort" "\<lambda>a b. 0" "''b/''" 0 Nil]
    failed_fetch_keeps_active_crate[of "demo_env True"
      "demo_at_sub\<lparr>historyStack := [\<lparr>h_name = JStr ''B'', h_url = Some ''https://h/b/ro-crate-metadata.json''\<rparr>]\<rparr>"
      "Error ''Error fetching RO-Crate from URL: Failed to fetch crate: 404 Not Found''"
      "insertion_sort" "\<lambda>a b. 0" Nil 0 "''https://h/b/ro-crate-metadata.json''"]
  by (simp add: demo_env_fields demo_fetch_missing demo_at_root_eq demo_at_sub_eq demo_state_def
      cached_json_def subcrate_target_def demo_resolve_b demo_fetchUrl ensure_slash_def
      ends_with_slash_def)

text \<open>
  C4. After a successful navigation whose target is the recorded root locator, the
  history stack is empty: for the direct load (\<^verbatim>\<open>loadFromUrl\<close>), the breadcrumb click
  (\<^verbatim>\<open>goToBreadcrumb\<close>), the back navigation (\<^verbatim>\<open>goBack\<close>), and also when a nested reference
  leads to the root (\<^verbatim>\<open>handleSubcrateOpen\<close>). A navigation is successful when it leaves no
  error message; the target is the input URL, the URL of the breadcrumb, the URL of the
  parent, the locator the reference resolves to.
\<close>

theorem entering_root_clears_breadcrumbs:
  "(inputUrl s \<noteq> [] \<and> errorMsg (loadFromUrl E s) = None \<and>
    rootCrateUrl (loadFromUrl E s) = Some (inputUrl s) \<longrightarrow>
      historyStack (loadFromUrl E s) = []) \<and>
   (i < length (historyStack s) \<and> h_url (historyStack s ! i) = Some u \<and> u \<noteq> [] \<and>
    errorMsg (goToBreadcrumb E i s) = None \<and> rootCrateUrl (goToBreadcrumb E i s) = Some u \<longrightarrow>
      historyStack (goToBreadcrumb E i s) = []) \<and>
   (historyStack s \<noteq> [] \<and> h_url (last (historyStack s)) = Some u \<and> u \<noteq> [] \<and>
    errorMsg (goBack E s) = None \<and> rootCrateUrl (goBack E s) = Some u \<longrightarrow>
      historyStack (goBack E s) = []) \<and>
   (baseUrl s \<noteq> [] \<and> errorMsg (handleSubcrateOpen E sub s) = None \<and>
    rootCrateUrl (handleSubcrateOpen E sub s) = Some (subcrate_target E sub s) \<longrightarrow>
      historyStack (handleSubcrateOpen E sub s) = [])"
proof (intro conjI impI)
  assume "inputUrl s \<noteq> [] \<and> errorMsg (loadFromUrl E s) = None \<and>
    rootCrateUrl (loadFromUrl E s) = Some (inputUrl s)"
  then show "historyStack (loadFromUrl E s) = []" using load_root_clears[of s E] by simp
next
  assume h: "i < length (historyStack s) \<and> h_url (historyStack s ! i) = Some u \<and> u \<noteq> [] \<and>
    errorMsg (goToBreadcrumb E i s) = None \<and> rootCrateUrl (goToBreadcrumb E i s) = Some u"
  let ?s = "s\<lparr>historyStack := take i (historyStack s), inputUrl := u\<rparr>"
  from h have r: "goToBreadcrumb E i s = loadFromUrl E ?s"
    using goToBreadcrumb_unfold[of i s u E] by simp
  from h show "historyStack (goToBreadcrumb E i s) = []"
    unfolding r using load_root_clears[of ?s E] by simp
next
  assume h: "historyStack s \<noteq> [] \<and> h_url (last (historyStack s)) = Some u \<and> u \<noteq> [] \<and>
    errorMsg (goBack E s) = None \<and> rootCrateUrl (goBack E s) = Some u"
  let ?s = "s\<lparr>historyStack := butlast (historyStack s), inputUrl := u\<rparr>"
  from h have r: "goBack E s = loadFromUrl E ?s"
    using goBack_unfold[of s u E] by simp
  from h show "historyStack (goBack E s) = []"
    unfolding r using load_root_clears[of ?s E] by simp
next
  assume h: "baseUrl s \<noteq> [] \<and> errorMsg (handleSubcrateOpen E sub s) = None \<and>
    rootCrateUrl (handleSubcrateOpen E sub s) = Some (subcrate_target E sub s)"
  then have b: "baseUrl s \<noteq> []" and e: "errorMsg (handleSubcrateOpen E sub s) = None" by simp_all
  from h handleSubcrateOpen_success(2)[OF b e]
  have "rootCrateUrl s = Some (subcrate_target E sub s)" by simp
  then show "historyStack (handleSubcrateOpen E sub s) = []"
    using handleSubcrateOpen_success(3)[OF b e] by simp
qed

text \<open>In the example session: the first load of the root, and from the nested crate the
  breadcrumb of the root, the back navigation, and the reference \<^verbatim>\<open>../\<close>.\<close>

theorem entering_root_clears_breadcrumbs_witness:
  "errorMsg (loadFromUrl (demo_env True) (initial_app\<lparr>inputUrl := ''https://h/''\<rparr>)) = None \<and>
   rootCrateUrl (loadFromUrl (demo_env True) (initial_app\<lparr>inputUrl := ''https://h/''\<rparr>)) =
     Some ''https://h/'' \<and>
   historyStack (loadFromUrl (demo_env True) (initial_app\<lparr>inputUrl := ''https://h/''\<rparr>)) = [] \<and>
   historyStack demo_at_sub = [\<lparr>h_name = JStr ''Root'', h_url = Some ''https://h/''\<rparr>] \<and>
   rootCrateUrl demo_at_sub = Some ''https://h/'' \<and>
   errorMsg (goToBreadcrumb (demo_env True) 0 demo_at_sub) = None \<and>
   historyStack (goToBreadcrumb (demo_env True) 0 demo_at_sub) = [] \<and>
   errorMsg (goBack (demo_env True) demo_at_sub) = None \<and>
   historyStack (goBack (demo_env True) demo_at_sub) = [] \<and>
   errorMsg (handleSubcrateOpen (demo_env True) ''../'' demo_at_sub) = None \<and>
   subcrate_target (demo_env True) ''../'' demo_at_sub = ''https://h/'' \<and>
   historyStack (handleSubcrateOpen (demo_env True) ''../'' demo_at_sub) = []"
  using
    entering_root_clears_breadcrumbs[of "initial_app\<lparr>inputUrl := ''https://h/''\<rparr>" "demo_env True"
      0 Nil Nil]
    entering_root_clears_breadcrumbs[of demo_at_sub "demo_env True" 0 "''https://h/''" "''../''"]
  unfolding demo_back_eq demo_breadcrumb_eq demo_up_eq demo_at_root_def[symmetric]
  by (simp add: demo_at_root_eq demo_at_sub_eq demo_state_def subcrate_target_def demo_resolve_up
      ensure_slash_def ends_with_slash_def initial_app_def)

text \<open>
  C5, as stated: for every state, \<^verbatim>\<open>handleSubcrateOpen\<close> followed by \<^verbatim>\<open>goBack\<close> restores the
  current locator and the length of the history stack. This fails when the reference leads
  to the root crate: entering the root empties the history stack, the pushed entry with
  it, and \<^verbatim>\<open>goBack\<close> then does nothing. In the example session, from the nested crate at
  \<^verbatim>\<open>https://h/a/\<close> (one breadcrumb), the reference \<^verbatim>\<open>../\<close> followed by \<^verbatim>\<open>goBack\<close> ends at
  \<^verbatim>\<open>https://h/\<close> with no breadcrumb.
\<close>

theorem open_root_then_back_stays_at_root:
  "currentUrl demo_at_sub = Some ''https://h/a/'' \<and>
   length (historyStack demo_at_sub) = 1 \<and>
   errorMsg (handleSubcrateOpen (demo_env True) ''../'' demo_at_sub) = None \<and>
   errorMsg (goBack (demo_env True) (handleSubcrateOpen (demo_env True) ''../'' demo_at_sub)) = None \<and>
   currentUrl (goBack (demo_env True) (handleSubcrateOpen (demo_env True) ''../'' demo_at_sub)) =
     Some ''https://h/'' \<and>
   length (historyStack
     (goBack (demo_env True) (handleSubcrateOpen (demo_env True) ''../'' demo_at_sub))) = 0"
  unfolding demo_up_eq
  by (simp add: demo_at_sub_eq demo_state_def goBack_def)

text \<open>
  C5, amended: from a state with a current locator \<open>u\<close> and a recorded root locator, in
  which the history stack is empty whenever the current crate is the root,
  \<^verbatim>\<open>handleSubcrateOpen\<close> to a crate other than the root, when it succeeds, makes the history
  stack the old one with the pair (name of the current crate, \<open>u\<close>) pushed; and \<^verbatim>\<open>goBack\<close>
  after it, when it succeeds, restores the current locator \<open>u\<close> and the history stack.
\<close>

theorem open_nested_then_back:
  assumes "baseUrl s \<noteq> []" and "currentUrl s = Some u" and "u \<noteq> []"
    and "truthy_str (rootCrateUrl s)"
    and "rootCrateUrl s = Some u \<longrightarrow> historyStack s = []"
    and "errorMsg (handleSubcrateOpen E sub s) = None"
    and "currentUrl (handleSubcrateOpen E sub s) \<noteq> rootCrateUrl s"
    and "errorMsg (goBack E (handleSubcrateOpen E sub s)) = None"
  shows "historyStack (handleSubcrateOpen E sub s) =
           historyStack s @ [\<lparr>h_name = currentCrateName s, h_url = Some u\<rparr>] \<and>
         currentUrl (goBack E (handleSubcrateOpen E sub s)) = Some u \<and>
         historyStack (goBack E (handleSubcrateOpen E sub s)) = historyStack s \<and>
         length (historyStack (goBack E (handleSubcrateOpen E sub s))) = length (historyStack s)"
proof -
  let ?r = "handleSubcrateOpen E sub s"
  have l: "locator s = u" using assms(2,3) by (simp add: locator_def)
  have t: "Some (subcrate_target E sub s) \<noteq> rootCrateUrl s"
    using handleSubcrateOpen_success(1)[OF assms(1,6)] assms(7) by simp
  have h1: "historyStack ?r = historyStack s @ [\<lparr>h_name = currentCrateName s, h_url = Some u\<rparr>]"
    using handleSubcrateOpen_success(3)[OF assms(1,6)] assms(4) t l by simp
  have r1: "rootCrateUrl ?r = rootCrateUrl s" by (rule handleSubcrateOpen_success(2)[OF assms(1,6)])
  let ?s = "?r\<lparr>historyStack := butlast (historyStack ?r), inputUrl := u\<rparr>"
  have b: "goBack E ?r = loadFromUrl E ?s"
    by (rule goBack_unfold) (simp_all add: h1 assms(3))
  have n: "inputUrl ?s \<noteq> []" using assms(3) by simp
  have e: "errorMsg (loadFromUrl E ?s) = None" using assms(8) unfolding b .
  have nn: "rootCrateUrl ?s \<noteq> None" using assms(4) r1 by (cases "rootCrateUrl s") (simp_all add: truthy_str_def)
  have c: "currentUrl (goBack E ?r) = Some u"
    unfolding b using loadFromUrl_success(1)[OF n e] by simp
  have r2: "rootCrateUrl (loadFromUrl E ?s) = rootCrateUrl s"
    using loadFromUrl_success(2)[OF n e] nn r1 by simp
  have h2: "historyStack (goBack E ?r) = historyStack s"
    unfolding b using loadFromUrl_success(3)[OF n e] assms(4,5) unfolding r2
    by (auto simp: h1)
  from h1 c h2 show ?thesis by simp
qed

text \<open>In the example session: from the root crate, the nested crate \<^verbatim>\<open>a/\<close> and back.\<close>

theorem open_nested_then_back_witness:
  "baseUrl demo_at_root = ''https://h/'' \<and> currentUrl demo_at_root = Some ''https://h/'' \<and>
   rootCrateUrl demo_at_root = Some ''https://h/'' \<and> historyStack demo_at_root = [] \<and>
   errorMsg (handleSubcrateOpen (demo_env True) ''a/'' demo_at_root) = None \<and>
   currentUrl (handleSubcrateOpen (demo_env True) ''a/'' demo_at_root) = Some ''https://h/a/'' \<and>
   errorMsg (goBack (demo_env True) (handleSubcrateOpen (demo_env True) ''a/'' demo_at_root)) = None \<and>
   historyStack (handleSubcrateOpen (demo_env True) ''a/'' demo_at_root) =
     [\<lparr>h_name = JStr ''Root'', h_url = Some ''https://h/''\<rparr>] \<and>
   currentUrl (goBack (demo_env True) (handleSubcrateOpen (demo_env True) ''a/'' demo_at_root)) =
     Some ''https://h/'' \<and>
   historyStack (goBack (demo_env True) (handleSubcrateOpen (demo_env True) ''a/'' demo_at_root)) = []"
  using open_nested_then_back[of demo_at_root "''https://h/''" "demo_env True" "''a/''"]
  unfolding demo_at_sub_def[symmetric] demo_back_eq
  by (simp add: demo_at_root_eq demo_at_sub_eq demo_state_def truthy_str_def)

end
